theory Spec2Isabelle
  imports Complex_Main "HOL-Library.AList"
begin

section \<open>Vector database backends of \<open>backend/vector_database.py\<close>\<close>

text \<open>
  The development embeds \<open>FAISSVectorDB\<close>, \<open>ChromaVectorDB\<close> and
  \<open>VectorDatabaseManager._create_database\<close>. Python dictionaries are association
  lists in insertion order: \<open>d[k] = v\<close> is \<open>AList.update\<close> (in place for a key that
  is present, appended otherwise), \<open>del d[k]\<close> is \<open>AList.delete\<close> after a presence
  test, \<open>d.get(k)\<close> is \<open>map_of\<close>. A method that mutates \<open>self\<close> takes the
  object and returns it updated; a method whose body sits in \<open>try ... except\<close> is split in
  a body that returns the exception raised (if any) together with the object as it is at that
  moment, and the method itself, which turns the exception into the value returned.
  Vector components and scores are real numbers: the float32 rounding of the libraries is
  not modelled.
\<close>

subsection \<open>Values\<close>

datatype py_error = KeyError | ValueError | AssertionError | ImportError

text \<open>Metadata values: the scalars the code compares with \<open>==\<close>; \<open>PNone\<close> is \<open>None\<close>.\<close>

datatype pyval = PNone | PStr string | PInt int

type_synonym metadata = "(string \<times> pyval) list"

type_synonym vec = "real list"

text \<open>\<open>str(n)\<close> of an integer: its decimal digits, with a minus sign when negative.\<close>

definition digit_char :: "nat \<Rightarrow> char" where
  "digit_char n = ''0123456789'' ! n"

fun str_nat :: "nat \<Rightarrow> string" where
  "str_nat n = (if n < 10 then [digit_char n] else str_nat (n div 10) @ [digit_char (n mod 10)])"

declare str_nat.simps [simp del]

definition str_int :: "int \<Rightarrow> string" where
  "str_int i = (if i < 0 then CHR ''-'' # str_nat (nat (- i)) else str_nat (nat i))"

text \<open>A document as the caller passes it: a dictionary in which each key may be absent.\<close>

record document =
  doc_id :: "string option"
  doc_content :: "string option"
  doc_metadata :: "metadata option"

text \<open>An entry of \<open>document_store\<close>.\<close>

record doc_data =
  content :: string
  metadata :: metadata
  faiss_index :: int

record VectorSearchResult =
  res_id :: string
  res_content :: string
  res_metadata :: metadata
  score :: real
  document_title :: pyval
  chunk_index :: pyval

record VectorDBConfig =
  db_type :: string
  collection_name :: string
  embedding_model_name :: string
  dimension :: nat
  index_type :: string
  metric :: string

subsection \<open>The raw index (the faiss library)\<close>

text \<open>
  A faiss index is its family, its dimension \<open>dim\<close> and the vectors added so far;
  \<open>ntotal\<close> is their number. \<open>add\<close> asserts that the vectors have dimension \<open>dim\<close>.
  \<open>search\<close> asserts \<open>k > 0\<close> and the dimension of the query, and returns exactly \<open>k\<close>
  pairs of a score and a position: the \<open>k\<close> best positions, best first, then the position
  \<open>-1\<close> as padding. For \<open>IndexFlatIP\<close> the score is the inner product and larger is
  better; for \<open>IndexFlatL2\<close> it is the squared Euclidean distance and smaller is better.
  \<open>IndexHNSWFlat\<close> also ranks by squared Euclidean distance; its graph search is taken
  to be exact here. The library leaves the order of positions with equal scores open; the
  model ranks them by position, and the statements below are about rankings of distinct
  scores or hold for every order of equal ones.
\<close>

datatype index_kind = IndexFlatIP | IndexFlatL2 | IndexHNSWFlat

record raw_index =
  kind :: index_kind
  dim :: nat
  vectors :: "vec list"

definition ntotal :: "raw_index \<Rightarrow> nat" where
  "ntotal ix = length (vectors ix)"

definition inner_product :: "vec \<Rightarrow> vec \<Rightarrow> real" where
  "inner_product x y = sum_list (map2 (*) x y)"

definition l2_sqr :: "vec \<Rightarrow> vec \<Rightarrow> real" where
  "l2_sqr x y = sum_list (map2 (\<lambda>a b. (a - b) * (a - b)) x y)"

definition normalize_L2 :: "vec \<Rightarrow> vec" where
  "normalize_L2 x =
     (let n = sqrt (inner_product x x) in if n = 0 then x else map (\<lambda>a. a / n) x)"

definition flt_max :: real where
  "flt_max = 340282346638528859811704183484516925440"

definition index_add :: "raw_index \<Rightarrow> vec list \<Rightarrow> py_error + raw_index" where
  "index_add ix xs =
     (if list_all (\<lambda>x. length x = dim ix) xs
      then Inr (ix\<lparr>vectors := vectors ix @ xs\<rparr>)
      else Inl AssertionError)"

definition scored :: "raw_index \<Rightarrow> vec \<Rightarrow> (real \<times> int) list" where
  "scored ix q =
     map (\<lambda>(i, x). (if kind ix = IndexFlatIP then inner_product q x else l2_sqr q x, int i))
       (enumerate 0 (vectors ix))"

definition ranked :: "raw_index \<Rightarrow> vec \<Rightarrow> (real \<times> int) list" where
  "ranked ix q =
     (if kind ix = IndexFlatIP then sort_key (\<lambda>(s, i). - s) (scored ix q)
      else sort_key (\<lambda>(s, i). s) (scored ix q))"

definition index_search :: "raw_index \<Rightarrow> vec \<Rightarrow> nat \<Rightarrow> py_error + (real \<times> int) list" where
  "index_search ix q k =
     (if length q \<noteq> dim ix \<or> k = 0 then Inl AssertionError
      else let best = take k (ranked ix q)
           in Inr (best @ replicate (k - length best)
                     (if kind ix = IndexFlatIP then - flt_max else flt_max, - 1)))"

subsection \<open>\<open>FAISSVectorDB\<close>\<close>

text \<open>
  What \<open>_save_index\<close> leaves on disk: the index file, and the metadata file, which is
  absent, or open and truncated with nothing valid in it yet, or a complete dump of the
  three dictionaries. A write may raise: \<open>io_faults\<close> says, for each coming call of
  \<open>_save_index\<close> in turn, how many of its effects on the disk complete before one
  raises; a number of 3 or more, or no entry, is a call in which none raises. A write that
  raises is taken to leave its file as it was.
\<close>

datatype metadata_file =
    Absent
  | Truncated
  | Dumped "(string \<times> doc_data) list" "(string \<times> int) list" "(string \<times> string) list"

record disk =
  index_file :: "raw_index option"
  metadata_file :: metadata_file
  io_faults :: "nat list"

record FAISSVectorDB =
  config :: VectorDBConfig
  embedding_model :: "string \<Rightarrow> vec"
  index :: raw_index
  document_store :: "(string \<times> doc_data) list"
  id_to_index :: "(string \<times> int) list"
  index_to_id :: "(string \<times> string) list"
  files :: disk

definition has_key :: "('k \<times> 'v) list \<Rightarrow> 'k \<Rightarrow> bool" where
  "has_key al k = (map_of al k \<noteq> None)"

definition create_index :: "FAISSVectorDB \<Rightarrow> FAISSVectorDB" where
  "create_index self =
     (let dm = dimension (config self); t = index_type (config self)
      in self\<lparr>index :=
           (if t = ''IndexFlatIP'' then \<lparr>kind = IndexFlatIP, dim = dm, vectors = []\<rparr>
            else if t = ''IndexFlatL2'' then \<lparr>kind = IndexFlatL2, dim = dm, vectors = []\<rparr>
            else if t = ''IndexHNSWFlat'' then \<lparr>kind = IndexHNSWFlat, dim = dm, vectors = []\<rparr>
            else \<lparr>kind = IndexFlatIP, dim = dm, vectors = []\<rparr>)\<rparr>)"

text \<open>
  \<open>_save_index\<close> in its three effects on the disk, in the order of the source:
  \<open>faiss.write_index\<close>, then \<open>open(metadata_path, 'w')\<close>, which truncates the file, then
  \<open>json.dump\<close>. \<open>save_index_steps\<close> holds the disk after each effect when none raises.
  \<open>save_index_passes\<close> holds the states the disk passes through in this call: all
  three, or those before the write that raises. The handler of \<open>_save_index\<close> logs the
  exception and returns, so the object is left with the disk in the last state passed
  and the caller goes on. A crash leaves the disk in the state before the call or in one of
  the states passed.
\<close>

definition save_index_steps :: "FAISSVectorDB \<Rightarrow> disk list" where
  "save_index_steps self =
     (let f1 = (files self)\<lparr>index_file := Some (index self)\<rparr>;
          f2 = f1\<lparr>metadata_file := Truncated\<rparr>;
          f3 = f2\<lparr>metadata_file :=
                 Dumped (document_store self) (id_to_index self) (index_to_id self)\<rparr>
      in [f1, f2, f3])"

definition save_index_passes :: "FAISSVectorDB \<Rightarrow> disk list" where
  "save_index_passes self =
     take (case io_faults (files self) of [] \<Rightarrow> 3 | n # later \<Rightarrow> n) (save_index_steps self)"

definition save_index :: "FAISSVectorDB \<Rightarrow> FAISSVectorDB" where
  "save_index self =
     self\<lparr>files :=
            (last (files self # save_index_passes self))
              \<lparr>io_faults := tl (io_faults (files self))\<rparr>\<rparr>"

text \<open>
  \<open>_load_index\<close>: the index is read from its file; the three dictionaries are read
  from the metadata file when it exists. A metadata file that does not parse raises in
  \<open>json.load\<close>, and the handler creates a new, empty index.
\<close>

definition load_index :: "FAISSVectorDB \<Rightarrow> raw_index \<Rightarrow> FAISSVectorDB" where
  "load_index self ix =
     (let self1 = self\<lparr>index := ix\<rparr>
      in case metadata_file (files self1) of
           Absent \<Rightarrow> self1
         | Truncated \<Rightarrow> create_index self1
         | Dumped docs i2x x2i \<Rightarrow>
             self1\<lparr>document_store := docs, id_to_index := i2x, index_to_id := x2i\<rparr>)"

definition initialize_db :: "FAISSVectorDB \<Rightarrow> FAISSVectorDB" where
  "initialize_db self =
     (case index_file (files self) of
        Some ix \<Rightarrow> load_index self ix
      | None \<Rightarrow> create_index self)"

text \<open>
  \<open>__init__\<close> once the libraries are there: the fields are set, then
  \<open>_initialize_db\<close> runs on the directory as it is on disk. \<open>new_faiss\<close> is the
  object built on an empty directory.
\<close>

definition faiss_init :: "VectorDBConfig \<Rightarrow> (string \<Rightarrow> vec) \<Rightarrow> disk \<Rightarrow> FAISSVectorDB" where
  "faiss_init cfg enc dsk =
     initialize_db
       \<lparr>config = cfg, embedding_model = enc,
        index = \<lparr>kind = IndexFlatIP, dim = 0, vectors = []\<rparr>,
        document_store = [], id_to_index = [], index_to_id = [],
        files = dsk\<rparr>"

definition new_faiss :: "VectorDBConfig \<Rightarrow> (string \<Rightarrow> vec) \<Rightarrow> FAISSVectorDB" where
  "new_faiss cfg enc =
     faiss_init cfg enc \<lparr>index_file = None, metadata_file = Absent, io_faults = []\<rparr>"

text \<open>
  \<open>embedding_model.encode(texts)\<close>: one vector per text. For an empty list of texts
  the library returns an array without a second axis, on which both \<open>faiss.normalize_L2\<close>
  and \<open>index.add\<close> raise; \<open>encode\<close> models that by \<open>None\<close>.
\<close>

definition encode :: "FAISSVectorDB \<Rightarrow> string list \<Rightarrow> vec list option" where
  "encode self texts = (if texts = [] then None else Some (map (embedding_model self) texts))"

text \<open>The body of the loop \<open>for i, doc in enumerate(documents)\<close> of \<open>add_documents\<close>.\<close>

fun store_metadata ::
  "FAISSVectorDB \<Rightarrow> int \<Rightarrow> (nat \<times> document) list \<Rightarrow> py_error option \<times> FAISSVectorDB" where
  "store_metadata self start_index [] = (None, self)"
| "store_metadata self start_index ((i, doc) # rest) =
     (case doc_id doc of
        None \<Rightarrow> (Some KeyError, self)
      | Some did \<Rightarrow>
          (let faiss_ix = start_index + int i in
           case doc_content doc of
             None \<Rightarrow> (Some KeyError, self)
           | Some c \<Rightarrow>
               store_metadata
                 (self\<lparr>document_store :=
                          AList.update did
                            \<lparr>content = c,
                             metadata = (case doc_metadata doc of None \<Rightarrow> [] | Some m \<Rightarrow> m),
                             faiss_index = faiss_ix\<rparr>
                            (document_store self),
                        id_to_index := AList.update did faiss_ix (id_to_index self),
                        index_to_id := AList.update (str_int faiss_ix) did (index_to_id self)\<rparr>)
                 start_index rest))"

text \<open>
  \<open>add_documents\<close> up to, and without, its last statement \<open>self._save_index()\<close>: the
  exception raised, if any, and the object at that moment.
\<close>

definition add_documents_pending ::
  "FAISSVectorDB \<Rightarrow> document list \<Rightarrow> py_error option \<times> FAISSVectorDB" where
  "add_documents_pending self documents =
     (if \<not> list_all (\<lambda>doc. doc_content doc \<noteq> None) documents then (Some KeyError, self)
      else
        case encode self (map (\<lambda>doc. the (doc_content doc)) documents) of
          None \<Rightarrow> (Some ValueError, self)
        | Some embeddings \<Rightarrow>
            (let embeddings =
                   (if index_type (config self) = ''IndexFlatIP''
                    then map normalize_L2 embeddings else embeddings);
                 start_index = int (ntotal (index self))
             in case index_add (index self) embeddings of
                  Inl e \<Rightarrow> (Some e, self)
                | Inr ix \<Rightarrow>
                    store_metadata (self\<lparr>index := ix\<rparr>) start_index (enumerate 0 documents)))"

definition add_documents_body ::
  "FAISSVectorDB \<Rightarrow> document list \<Rightarrow> py_error option \<times> FAISSVectorDB" where
  "add_documents_body self documents =
     (case add_documents_pending self documents of
        (Some e, self') \<Rightarrow> (Some e, self')
      | (None, self') \<Rightarrow> (None, save_index self'))"

definition add_documents :: "FAISSVectorDB \<Rightarrow> document list \<Rightarrow> bool \<times> FAISSVectorDB" where
  "add_documents self documents =
     (case add_documents_body self documents of
        (None, self') \<Rightarrow> (True, self')
      | (Some e, self') \<Rightarrow> (False, self'))"

text \<open>\<open>_rebuild_index\<close>; the value \<open>add_documents\<close> returns is dropped, as in the source.\<close>

definition rebuild_index :: "FAISSVectorDB \<Rightarrow> FAISSVectorDB" where
  "rebuild_index self =
     (if document_store self = [] then save_index (create_index self)
      else
        let self1 = create_index self;
            documents =
              map (\<lambda>(did, doc_data).
                     \<lparr>doc_id = Some did, doc_content = Some (content doc_data),
                      doc_metadata = Some (metadata doc_data)\<rparr>)
                (document_store self1);
            self2 = self1\<lparr>id_to_index := [], index_to_id := []\<rparr>
        in if documents \<noteq> [] then snd (add_documents self2 documents) else self2)"

text \<open>
  The three \<open>del\<close> statements of \<open>delete_document\<close>, for an id whose entry in
  \<open>document_store\<close> is \<open>doc_data\<close>; \<open>del\<close> raises \<open>KeyError\<close> when the key is not
  there.
\<close>

definition remove_from_stores ::
  "FAISSVectorDB \<Rightarrow> string \<Rightarrow> doc_data \<Rightarrow> py_error option \<times> FAISSVectorDB" where
  "remove_from_stores self document_id doc_data =
     (let faiss_ix = faiss_index doc_data;
          self1 = self\<lparr>document_store := AList.delete document_id (document_store self)\<rparr>
      in if \<not> has_key (id_to_index self1) document_id then (Some KeyError, self1)
         else
           let self2 = self1\<lparr>id_to_index := AList.delete document_id (id_to_index self1)\<rparr>
           in if \<not> has_key (index_to_id self2) (str_int faiss_ix)
              then (Some KeyError, self2)
              else
                (None,
                 self2\<lparr>index_to_id := AList.delete (str_int faiss_ix) (index_to_id self2)\<rparr>))"

definition delete_document_body ::
  "FAISSVectorDB \<Rightarrow> string \<Rightarrow> (py_error + bool) \<times> FAISSVectorDB" where
  "delete_document_body self document_id =
     (case map_of (document_store self) document_id of
        None \<Rightarrow> (Inr False, self)
      | Some doc_data \<Rightarrow>
          (case remove_from_stores self document_id doc_data of
             (Some e, self') \<Rightarrow> (Inl e, self')
           | (None, self') \<Rightarrow> (Inr True, rebuild_index self')))"

definition delete_document :: "FAISSVectorDB \<Rightarrow> string \<Rightarrow> bool \<times> FAISSVectorDB" where
  "delete_document self document_id =
     (case delete_document_body self document_id of
        (Inr b, self') \<Rightarrow> (b, self')
      | (Inl e, self') \<Rightarrow> (False, self'))"

definition clear_collection :: "FAISSVectorDB \<Rightarrow> bool \<times> FAISSVectorDB" where
  "clear_collection self =
     (let self1 = create_index self;
          self2 = self1\<lparr>document_store := [], id_to_index := [], index_to_id := []\<rparr>
      in (True, save_index self2))"

record collection_stats =
  total_documents :: nat
  stats_db_type :: string
  stats_index_type :: string
  stats_dimension :: nat
  stats_embedding_model :: string

definition get_collection_stats :: "FAISSVectorDB \<Rightarrow> collection_stats" where
  "get_collection_stats self =
     \<lparr>total_documents = length (document_store self),
      stats_db_type = ''faiss'',
      stats_index_type = index_type (config self),
      stats_dimension = dimension (config self),
      stats_embedding_model = embedding_model_name (config self)\<rparr>"

text \<open>
  \<open>dict.get(k, default)\<close> on metadata, and the filter test
  \<open>all(metadata.get(k) == v for k, v in filter_dict.items())\<close>.
\<close>

definition md_get :: "metadata \<Rightarrow> string \<Rightarrow> pyval \<Rightarrow> pyval" where
  "md_get m k dflt = (case map_of m k of None \<Rightarrow> dflt | Some v \<Rightarrow> v)"

definition matches :: "metadata \<Rightarrow> (string \<times> pyval) list \<Rightarrow> bool" where
  "matches m filter_dict = list_all (\<lambda>(k, v). md_get m k PNone = v) filter_dict"

text \<open>
  The loop of \<open>search\<close> over the pairs the raw index returned: \<open>break\<close> at position
  \<open>-1\<close>. \<open>hit_result\<close> is the rest of the loop body for one pair: a position
  without an id, with the empty id, or whose id is not in \<open>document_store\<close> adds
  nothing; \<open>continue\<close> when the filter is given, non-empty and fails; otherwise a
  result is appended.
\<close>

definition hit_result ::
  "FAISSVectorDB \<Rightarrow> (string \<times> pyval) list option \<Rightarrow> real \<times> int \<Rightarrow> VectorSearchResult option"
  where
  "hit_result self filter_dict hit =
     (case hit of (sc, idx) \<Rightarrow>
        case map_of (index_to_id self) (str_int idx) of
          None \<Rightarrow> None
        | Some did \<Rightarrow>
            (case (if did = [] then None else map_of (document_store self) did) of
               None \<Rightarrow> None
             | Some doc_data \<Rightarrow>
                 if (case filter_dict of None \<Rightarrow> False
                     | Some fd \<Rightarrow> fd \<noteq> [] \<and> \<not> matches (metadata doc_data) fd)
                 then None
                 else
                   Some \<lparr>res_id = did, res_content = content doc_data,
                         res_metadata = metadata doc_data,
                         score = sc,
                         document_title = md_get (metadata doc_data) ''title'' (PStr []),
                         chunk_index = md_get (metadata doc_data) ''chunk_index'' (PInt 0)\<rparr>))"

fun collect_results ::
  "FAISSVectorDB \<Rightarrow> (string \<times> pyval) list option \<Rightarrow> (real \<times> int) list \<Rightarrow> VectorSearchResult list"
  where
  "collect_results self filter_dict [] = []"
| "collect_results self filter_dict (hit # rest) =
     (if snd hit = - 1 then []
      else
        case hit_result self filter_dict hit of
          None \<Rightarrow> collect_results self filter_dict rest
        | Some result \<Rightarrow> result # collect_results self filter_dict rest)"

definition search ::
  "FAISSVectorDB \<Rightarrow> string \<Rightarrow> nat \<Rightarrow> (string \<times> pyval) list option \<Rightarrow> VectorSearchResult list"
  where
  "search self query top_k filter_dict =
     (let query_embedding = embedding_model self query;
          query_embedding =
            (if index_type (config self) = ''IndexFlatIP''
             then normalize_L2 query_embedding else query_embedding)
      in case index_search (index self) query_embedding top_k of
           Inl e \<Rightarrow> []
         | Inr hits \<Rightarrow> collect_results self filter_dict hits)"

subsection \<open>\<open>ChromaVectorDB\<close>\<close>

text \<open>
  The external engine is a client holding named collections; a collection holds entries
  addressed by id. Of its primitives the development needs \<open>get_collection\<close>,
  \<open>create_collection\<close>, \<open>delete_collection\<close>, \<open>Collection.delete\<close> and
  \<open>Collection.count\<close>: a collection that is looked up or deleted must exist, one that is
  created must not exist yet, and \<open>Collection.delete(ids)\<close> removes the entries with
  these ids and accepts ids that are not there. \<open>self.collection\<close> is a handle on the
  collection of that name in the client.
\<close>

record chroma_entry =
  e_embedding :: vec
  e_document :: string
  e_metadata :: metadata

type_synonym chroma_collection = "(string \<times> chroma_entry) list"

type_synonym chroma_client = "(string \<times> chroma_collection) list"

definition get_collection :: "chroma_client \<Rightarrow> string \<Rightarrow> py_error + string" where
  "get_collection cl name = (if has_key cl name then Inr name else Inl ValueError)"

definition create_collection :: "chroma_client \<Rightarrow> string \<Rightarrow> py_error + chroma_client" where
  "create_collection cl name =
     (if has_key cl name then Inl ValueError else Inr (AList.update name [] cl))"

definition delete_collection :: "chroma_client \<Rightarrow> string \<Rightarrow> py_error + chroma_client" where
  "delete_collection cl name =
     (if has_key cl name then Inr (AList.delete name cl) else Inl ValueError)"

definition collection_delete ::
  "chroma_client \<Rightarrow> string \<Rightarrow> string list \<Rightarrow> py_error + chroma_client" where
  "collection_delete cl name ids =
     (case map_of cl name of
        None \<Rightarrow> Inl ValueError
      | Some entries \<Rightarrow> Inr (AList.update name (filter (\<lambda>(i, e). i \<notin> set ids) entries) cl))"

definition collection_count :: "chroma_client \<Rightarrow> string \<Rightarrow> py_error + nat" where
  "collection_count cl name =
     (case map_of cl name of None \<Rightarrow> Inl ValueError | Some entries \<Rightarrow> Inr (length entries))"

record ChromaVectorDB =
  c_config :: VectorDBConfig
  c_embedding_model :: "string \<Rightarrow> vec"
  client :: chroma_client
  collection :: string

text \<open>\<open>_initialize_db\<close>: get the collection, or create it when that raises.\<close>

definition chroma_init ::
  "VectorDBConfig \<Rightarrow> (string \<Rightarrow> vec) \<Rightarrow> chroma_client \<Rightarrow> py_error + ChromaVectorDB" where
  "chroma_init cfg enc cl =
     (case get_collection cl (collection_name cfg) of
        Inr h \<Rightarrow> Inr \<lparr>c_config = cfg, c_embedding_model = enc, client = cl, collection = h\<rparr>
      | Inl e \<Rightarrow>
          (case create_collection cl (collection_name cfg) of
             Inl e' \<Rightarrow> Inl e'
           | Inr cl' \<Rightarrow>
               Inr \<lparr>c_config = cfg, c_embedding_model = enc, client = cl',
                    collection = collection_name cfg\<rparr>))"

definition delete_document_chroma :: "ChromaVectorDB \<Rightarrow> string \<Rightarrow> bool \<times> ChromaVectorDB" where
  "delete_document_chroma self document_id =
     (case collection_delete (client self) (collection self) [document_id] of
        Inr cl \<Rightarrow> (True, self\<lparr>client := cl\<rparr>)
      | Inl e \<Rightarrow> (False, self))"

text \<open>\<open>get_collection_stats\<close> returns the empty dictionary, here \<open>None\<close>, on an exception.\<close>

record chroma_stats =
  c_total_documents :: nat
  c_stats_db_type :: string
  c_stats_collection_name :: string
  c_stats_embedding_model :: string

definition get_collection_stats_chroma :: "ChromaVectorDB \<Rightarrow> chroma_stats option" where
  "get_collection_stats_chroma self =
     (case collection_count (client self) (collection self) of
        Inr n \<Rightarrow>
          Some \<lparr>c_total_documents = n, c_stats_db_type = ''chroma'',
                c_stats_collection_name = collection_name (c_config self),
                c_stats_embedding_model = embedding_model_name (c_config self)\<rparr>
      | Inl e \<Rightarrow> None)"

definition clear_collection_chroma :: "ChromaVectorDB \<Rightarrow> bool \<times> ChromaVectorDB" where
  "clear_collection_chroma self =
     (case delete_collection (client self) (collection_name (c_config self)) of
        Inl e \<Rightarrow> (False, self)
      | Inr cl \<Rightarrow>
          (case create_collection cl (collection_name (c_config self)) of
             Inl e \<Rightarrow> (False, self\<lparr>client := cl\<rparr>)
           | Inr cl' \<Rightarrow>
               (True, self\<lparr>client := cl', collection := collection_name (c_config self)\<rparr>)))"

subsection \<open>\<open>VectorDatabaseManager._create_database\<close>\<close>

text \<open>
  The three import flags of the module, and \<open>str.lower\<close> on ASCII letters. A
  constructor raises \<open>ImportError\<close> when its library or the embedding library is
  missing. \<open>_create_database\<close> returns the configuration, which it may have updated,
  with the backend it built.
\<close>

record environment =
  CHROMA_AVAILABLE :: bool
  FAISS_AVAILABLE :: bool
  SENTENCE_TRANSFORMERS_AVAILABLE :: bool

definition lower_char :: "char \<Rightarrow> char" where
  "lower_char c =
     (case map_of (zip ''ABCDEFGHIJKLMNOPQRSTUVWXYZ'' ''abcdefghijklmnopqrstuvwxyz'') c of
        Some l \<Rightarrow> l
      | None \<Rightarrow> c)"

definition lower :: "string \<Rightarrow> string" where
  "lower s = map lower_char s"

datatype database = Chroma ChromaVectorDB | Faiss FAISSVectorDB

definition ChromaVectorDB_new ::
  "environment \<Rightarrow> VectorDBConfig \<Rightarrow> (string \<Rightarrow> vec) \<Rightarrow> chroma_client \<Rightarrow> py_error + ChromaVectorDB"
  where
  "ChromaVectorDB_new env cfg enc cl =
     (if \<not> CHROMA_AVAILABLE env then Inl ImportError
      else if \<not> SENTENCE_TRANSFORMERS_AVAILABLE env then Inl ImportError
      else chroma_init cfg enc cl)"

definition FAISSVectorDB_new ::
  "environment \<Rightarrow> VectorDBConfig \<Rightarrow> (string \<Rightarrow> vec) \<Rightarrow> disk \<Rightarrow> py_error + FAISSVectorDB"
  where
  "FAISSVectorDB_new env cfg enc dsk =
     (if \<not> FAISS_AVAILABLE env then Inl ImportError
      else if \<not> SENTENCE_TRANSFORMERS_AVAILABLE env then Inl ImportError
      else Inr (faiss_init cfg enc dsk))"

definition create_database ::
  "environment \<Rightarrow> VectorDBConfig \<Rightarrow> (string \<Rightarrow> vec) \<Rightarrow> chroma_client \<Rightarrow> disk
     \<Rightarrow> py_error + (VectorDBConfig \<times> database)" where
  "create_database env cfg enc cl dsk =
     (if lower (db_type cfg) = ''chroma'' then
        (if \<not> CHROMA_AVAILABLE env then
           (let cfg' = cfg\<lparr>db_type := ''faiss''\<rparr>
            in case FAISSVectorDB_new env cfg' enc dsk of
                 Inl e \<Rightarrow> Inl e | Inr db \<Rightarrow> Inr (cfg', Faiss db))
         else
           (case ChromaVectorDB_new env cfg enc cl of
              Inl e \<Rightarrow> Inl e | Inr db \<Rightarrow> Inr (cfg, Chroma db)))
      else if lower (db_type cfg) = ''faiss'' then
        (if \<not> FAISS_AVAILABLE env then
           (let cfg' = cfg\<lparr>db_type := ''chroma''\<rparr>
            in case ChromaVectorDB_new env cfg' enc cl of
                 Inl e \<Rightarrow> Inl e | Inr db \<Rightarrow> Inr (cfg', Chroma db))
         else
           (case FAISSVectorDB_new env cfg enc dsk of
              Inl e \<Rightarrow> Inl e | Inr db \<Rightarrow> Inr (cfg, Faiss db)))
      else Inl ValueError)"

subsection \<open>Auxiliary notions\<close>

text \<open>
  The vector that \<open>add_documents\<close> and \<open>search\<close> hand to the raw index for a text
  embedding: normalised when \<open>index_type\<close> is \<open>IndexFlatIP\<close>. A document with one
  metadata entry \<open>tag\<close>.
\<close>

definition prep :: "FAISSVectorDB \<Rightarrow> vec \<Rightarrow> vec" where
  "prep self x = (if index_type (config self) = ''IndexFlatIP'' then normalize_L2 x else x)"

definition tagged :: "string \<Rightarrow> string \<Rightarrow> string \<Rightarrow> document" where
  "tagged i c t =
     \<lparr>doc_id = Some i, doc_content = Some c, doc_metadata = Some [(''tag'', PStr t)]\<rparr>"

text \<open>The vectors \<open>add_documents\<close> hands to \<open>index.add\<close> for a batch.\<close>

definition batch_vectors :: "FAISSVectorDB \<Rightarrow> document list \<Rightarrow> vec list" where
  "batch_vectors self documents =
     map (\<lambda>doc. prep self (embedding_model self (the (doc_content doc)))) documents"

text \<open>
  The documents \<open>_rebuild_index\<close> hands back to \<open>add_documents\<close>, and a document
  store with its positions renumbered from 0 in stored order.
\<close>

definition stored_documents :: "(string \<times> doc_data) list \<Rightarrow> document list" where
  "stored_documents store =
     map (\<lambda>(did, doc_data).
            \<lparr>doc_id = Some did, doc_content = Some (content doc_data),
             doc_metadata = Some (metadata doc_data)\<rparr>) store"

definition renumber :: "nat \<Rightarrow> (string \<times> doc_data) list \<Rightarrow> (string \<times> doc_data) list" where
  "renumber n store =
     map (\<lambda>(k, (did, doc_data)). (did, doc_data\<lparr>faiss_index := int k\<rparr>)) (enumerate n store)"

text \<open>
  The relation between the three dictionaries that the loop of \<open>add_documents\<close>
  maintains, stated on the dictionaries as maps. \<open>B\<close> bounds the positions in use,
  \<open>pend\<close> are the ids the loop has still to store, and entries of \<open>document_store\<close>
  without a position are among the pending ids that lie in \<open>D0\<close>.
\<close>

definition linked :: "FAISSVectorDB \<Rightarrow> int \<Rightarrow> string list \<Rightarrow> string set \<Rightarrow> bool" where
  "linked self B pend D0 \<longleftrightarrow>
     distinct (map fst (document_store self)) \<and>
     distinct (map fst (id_to_index self)) \<and>
     distinct (map fst (index_to_id self)) \<and>
     distinct pend \<and>
     dom (map_of (id_to_index self)) \<inter> set pend = {} \<and>
     dom (map_of (id_to_index self)) \<subseteq> dom (map_of (document_store self)) \<and>
     dom (map_of (document_store self)) - dom (map_of (id_to_index self)) \<subseteq> set pend \<inter> D0 \<and>
     (\<forall>i p. map_of (id_to_index self) i = Some p \<longrightarrow>
        map_of (index_to_id self) (str_int p) = Some i \<and> 0 \<le> p \<and> p < B) \<and>
     (\<forall>k i. map_of (index_to_id self) k = Some i \<longrightarrow>
        (\<exists>p. map_of (id_to_index self) i = Some p \<and> k = str_int p)) \<and>
     (\<forall>i dd. map_of (document_store self) i = Some dd \<longrightarrow>
        i \<in> dom (map_of (id_to_index self)) \<longrightarrow>
        map_of (id_to_index self) i = Some (faiss_index dd)) \<and>
     (\<forall>i dd. map_of (document_store self) i = Some dd \<longrightarrow>
        length (embedding_model self (content dd)) = dimension (config self))"

text \<open>The invariant of the object between calls.\<close>

definition inv :: "FAISSVectorDB \<Rightarrow> bool" where
  "inv self \<longleftrightarrow>
     linked self (int (ntotal (index self))) [] {} \<and>
     dim (index self) = dimension (config self)"

text \<open>
  The relation between the three dictionaries that every call keeps, whatever ids it
  adds: the dictionaries have the same ids, and every stored document has its position in
  \<open>id_to_index\<close>, is the id of that position in \<open>index_to_id\<close>, and its position is
  below \<open>B\<close>. \<open>index_to_id\<close> may hold further entries. The invariant
  \<open>winv\<close> takes \<open>B\<close> to be the size of the raw index.
\<close>

definition wlinked :: "FAISSVectorDB \<Rightarrow> int \<Rightarrow> bool" where
  "wlinked self B \<longleftrightarrow>
     distinct (map fst (document_store self)) \<and>
     distinct (map fst (id_to_index self)) \<and>
     distinct (map fst (index_to_id self)) \<and>
     dom (map_of (id_to_index self)) = dom (map_of (document_store self)) \<and>
     (\<forall>i dd. map_of (document_store self) i = Some dd \<longrightarrow>
        map_of (id_to_index self) i = Some (faiss_index dd) \<and>
        map_of (index_to_id self) (str_int (faiss_index dd)) = Some i \<and>
        0 \<le> faiss_index dd \<and> faiss_index dd < B) \<and>
     (\<forall>i dd. map_of (document_store self) i = Some dd \<longrightarrow>
        length (embedding_model self (content dd)) = dimension (config self))"

definition winv :: "FAISSVectorDB \<Rightarrow> bool" where
  "winv self \<longleftrightarrow>
     wlinked self (int (ntotal (index self))) \<and>
     dim (index self) = dimension (config self)"


text \<open>
  The object built on an empty directory, on a disk whose coming writes raise as
  \<open>faults\<close> says.
\<close>

definition new_faiss_faults ::
  "VectorDBConfig \<Rightarrow> (string \<Rightarrow> vec) \<Rightarrow> nat list \<Rightarrow> FAISSVectorDB" where
  "new_faiss_faults cfg enc faults =
     (new_faiss cfg enc)\<lparr>files := (files (new_faiss cfg enc))\<lparr>io_faults := faults\<rparr>\<rparr>"

text \<open>
  The property of C1, as a test on the dictionaries: each of \<open>id_to_index\<close> and
  \<open>index_to_id\<close> sends every entry of the other back (a position and its key are related
  by \<open>str\<close>), and each has as many entries as \<open>document_store\<close>.
\<close>

definition mappings_inverse :: "FAISSVectorDB \<Rightarrow> bool" where
  "mappings_inverse self \<longleftrightarrow>
     list_all (\<lambda>(did, p). map_of (index_to_id self) (str_int p) = Some did) (id_to_index self) \<and>
     list_all (\<lambda>(k, did). case map_of (id_to_index self) did of
                             None \<Rightarrow> False | Some p \<Rightarrow> str_int p = k)
       (index_to_id self)"

definition bijection_invariant :: "FAISSVectorDB \<Rightarrow> bool" where
  "bijection_invariant self \<longleftrightarrow>
     mappings_inverse self \<and>
     length (id_to_index self) = length (document_store self) \<and>
     length (index_to_id self) = length (document_store self)"

text \<open>
  A sequence of calls, the object after it, and the test that every batch added brings
  ids that are distinct and not yet in \<open>document_store\<close>.
\<close>

datatype call = Add "document list" | Delete string

fun apply_call :: "FAISSVectorDB \<Rightarrow> call \<Rightarrow> FAISSVectorDB" where
  "apply_call self (Add documents) = snd (add_documents self documents)"
| "apply_call self (Delete document_id) = snd (delete_document self document_id)"

definition batch_ids :: "document list \<Rightarrow> string list" where
  "batch_ids documents = List.map_filter doc_id documents"

fun fresh_call :: "FAISSVectorDB \<Rightarrow> call \<Rightarrow> bool" where
  "fresh_call self (Add documents) =
     (distinct (batch_ids documents) \<and>
      list_all (\<lambda>i. \<not> has_key (document_store self) i) (batch_ids documents))"
| "fresh_call self (Delete document_id) = True"

fun fresh_calls :: "FAISSVectorDB \<Rightarrow> call list \<Rightarrow> bool" where
  "fresh_calls self [] = True"
| "fresh_calls self (c # cs) = (fresh_call self c \<and> fresh_calls (apply_call self c) cs)"

fun run_calls :: "FAISSVectorDB \<Rightarrow> call list \<Rightarrow> FAISSVectorDB" where
  "run_calls self [] = self"
| "run_calls self (c # cs) = run_calls (apply_call self c) cs"

subsection \<open>The disk during a call\<close>









text \<open>
  The states \<open>ds\<close> of the disk during a call that found the disk as \<open>before\<close> and
  leaves the object \<open>self'\<close> are written index first, metadata in place: every state
  has the index of \<open>self'\<close> in the index file, and the metadata file is the one found,
  then a truncated one, then the dump of the dictionaries of \<open>self'\<close>, as far as the
  writes got.
\<close>

definition written_in_order :: "disk \<Rightarrow> FAISSVectorDB \<Rightarrow> disk list \<Rightarrow> bool" where
  "written_in_order before self' ds \<longleftrightarrow>
     list_all (\<lambda>dsk. index_file dsk = Some (index self')) ds \<and>
     map metadata_file ds =
       take (length ds)
         [metadata_file before, Truncated,
          Dumped (document_store self') (id_to_index self') (index_to_id self')]"

subsection \<open>Concrete inputs\<close>

text \<open>Configurations, embeddings, documents and objects at which the theorems are instantiated.\<close>

definition cfg_ip :: VectorDBConfig where
  "cfg_ip = \<lparr>db_type = ''faiss'', collection_name = ''rag_documents'',
             embedding_model_name = ''m'', dimension = 2, index_type = ''IndexFlatIP'',
             metric = ''cosine''\<rparr>"

definition cfg_l2 :: VectorDBConfig where
  "cfg_l2 = \<lparr>db_type = ''faiss'', collection_name = ''rag_documents'',
             embedding_model_name = ''m'', dimension = 1, index_type = ''IndexFlatL2'',
             metric = ''cosine''\<rparr>"

definition enc_ip :: "string \<Rightarrow> vec" where
  "enc_ip s = (if s = ''x'' then [1, 0] else [0, 1])"

definition enc_xyz :: "string \<Rightarrow> vec" where
  "enc_xyz s = (if s = ''x'' then [1, 0] else if s = ''y'' then [0, 1] else [3 / 5, 4 / 5])"

definition enc_l2 :: "string \<Rightarrow> vec" where
  "enc_l2 s = (if s = ''x'' then [0] else [3])"

definition doc_a :: document where
  "doc_a = \<lparr>doc_id = Some ''a'', doc_content = Some ''x'', doc_metadata = None\<rparr>"

definition doc_b :: document where
  "doc_b = \<lparr>doc_id = Some ''b'', doc_content = Some ''y'', doc_metadata = None\<rparr>"

definition doc_no_id :: document where
  "doc_no_id = \<lparr>doc_id = None, doc_content = Some ''y'', doc_metadata = None\<rparr>"

definition chroma_one :: ChromaVectorDB where
  "chroma_one =
     \<lparr>c_config = cfg_ip, c_embedding_model = enc_ip,
      client = [(''rag_documents'',
                 [(''a'', \<lparr>e_embedding = [1, 0], e_document = ''x'', e_metadata = []\<rparr>)])],
      collection = ''rag_documents''\<rparr>"

definition faiss_ab :: FAISSVectorDB where
  "faiss_ab = snd (add_documents (new_faiss cfg_ip enc_ip) [doc_a, doc_b])"

definition env_no_chroma :: environment where
  "env_no_chroma =
     \<lparr>CHROMA_AVAILABLE = False, FAISS_AVAILABLE = True, SENTENCE_TRANSFORMERS_AVAILABLE = True\<rparr>"

definition env_no_faiss :: environment where
  "env_no_faiss =
     \<lparr>CHROMA_AVAILABLE = True, FAISS_AVAILABLE = False, SENTENCE_TRANSFORMERS_AVAILABLE = True\<rparr>"

definition cfg_chroma :: VectorDBConfig where
  "cfg_chroma = cfg_ip\<lparr>db_type := ''Chroma''\<rparr>"

definition cfg_unknown :: VectorDBConfig where
  "cfg_unknown = cfg_ip\<lparr>db_type := ''pinecone''\<rparr>"

definition empty_disk :: disk where
  "empty_disk = \<lparr>index_file = None, metadata_file = Absent, io_faults = []\<rparr>"

definition faiss_l2_ab :: FAISSVectorDB where
  "faiss_l2_ab = snd (add_documents (new_faiss cfg_l2 enc_l2) [doc_a, doc_b])"

definition faiss_tagged :: FAISSVectorDB where
  "faiss_tagged =
     snd (add_documents (new_faiss cfg_ip enc_xyz)
            [tagged ''A'' ''x'' ''x'', tagged ''B'' ''y'' ''y'', tagged ''C'' ''z'' ''x''])"

definition calls_add_delete :: "call list" where
  "calls_add_delete = [Add [doc_a, doc_b], Delete ''a'']"

definition calls_add_twice :: "call list" where
  "calls_add_twice = [Add [doc_a], Add [doc_a] ]"



section \<open>Properties\<close>

text \<open>The defining equations, for evaluating the model at the concrete inputs.\<close>

lemmas model_defs =
  search_def add_documents_def add_documents_body_def add_documents_pending_def
  remove_from_stores_def new_faiss_def new_faiss_faults_def faiss_init_def
  initialize_db_def load_index_def create_index_def encode_def index_add_def ntotal_def
  save_index_def save_index_steps_def save_index_passes_def index_search_def ranked_def
  scored_def l2_sqr_def
  inner_product_def str_int_def str_nat.simps digit_char_def flt_max_def delete_document_def
  delete_document_body_def rebuild_index_def has_key_def normalize_L2_def matches_def
  hit_result_def
  md_get_def clear_collection_def get_collection_stats_def Let_def

lemmas input_defs =
  cfg_ip_def cfg_l2_def enc_ip_def enc_xyz_def enc_l2_def doc_a_def doc_b_def doc_no_id_def

subsection \<open>Association lists\<close>

lemma has_key_update [simp]: "has_key (AList.update k v al) k' = (k' = k \<or> has_key al k')"
  by (simp add: has_key_def update_conv')

lemma has_key_delete [simp]: "has_key (AList.delete k al) k' = (k' \<noteq> k \<and> has_key al k')"
  by (simp add: has_key_def delete_conv')

subsection \<open>\<open>clear_collection\<close>\<close>

lemma clear_collection_faiss_twice:
  "fst (clear_collection self) \<and>
   total_documents (get_collection_stats (snd (clear_collection self))) = 0"
  by (simp add: clear_collection_def get_collection_stats_def save_index_def Let_def)

lemma clear_collection_chroma_twice:
  assumes "has_key (client self) (collection_name (c_config self))"
  shows "\<exists>s1. clear_collection_chroma self = (True, s1) \<and>
     map_option c_total_documents (get_collection_stats_chroma s1) = Some 0 \<and>
     clear_collection_chroma s1 = (True, s1)"
  using assms
  by (simp add: clear_collection_chroma_def delete_collection_def create_collection_def
      get_collection_stats_chroma_def collection_count_def update_conv' delete_update_same
      delete_idem)

text \<open>
  C8. \<open>clear_collection\<close> twice in a row: on the FAISS backend both calls return
  \<open>True\<close> and \<open>total_documents\<close> is 0 after each; on the Chroma backend, whose
  collection exists in the client (as it does from \<open>_initialize_db\<close> on), both calls
  return \<open>True\<close> and \<open>total_documents\<close> is 0 after each.
\<close>

theorem clear_collection_idempotent:
  "(let (ok1, s1) = clear_collection self; (ok2, s2) = clear_collection s1
    in ok1 \<and> total_documents (get_collection_stats s1) = 0 \<and>
       ok2 \<and> total_documents (get_collection_stats s2) = 0) \<and>
   (has_key (client cself) (collection_name (c_config cself)) \<longrightarrow>
    (let (ok1, s1) = clear_collection_chroma cself; (ok2, s2) = clear_collection_chroma s1
     in ok1 \<and> map_option c_total_documents (get_collection_stats_chroma s1) = Some 0 \<and>
        ok2 \<and> map_option c_total_documents (get_collection_stats_chroma s2) = Some 0))"
proof (intro conjI impI)
  show "let (ok1, s1) = clear_collection self; (ok2, s2) = clear_collection s1
    in ok1 \<and> total_documents (get_collection_stats s1) = 0 \<and>
       ok2 \<and> total_documents (get_collection_stats s2) = 0"
    using clear_collection_faiss_twice [of self]
      clear_collection_faiss_twice [of "snd (clear_collection self)"]
    by (simp add: split_beta)
next
  assume "has_key (client cself) (collection_name (c_config cself))"
  then obtain s1 where "clear_collection_chroma cself = (True, s1)"
    "map_option c_total_documents (get_collection_stats_chroma s1) = Some 0"
    "clear_collection_chroma s1 = (True, s1)"
    using clear_collection_chroma_twice [of cself] by blast
  then show "let (ok1, s1) = clear_collection_chroma cself;
        (ok2, s2) = clear_collection_chroma s1
     in ok1 \<and> map_option c_total_documents (get_collection_stats_chroma s1) = Some 0 \<and>
        ok2 \<and> map_option c_total_documents (get_collection_stats_chroma s2) = Some 0"
    by simp
qed

theorem clear_collection_idempotent_witness:
  "has_key (client chroma_one) (collection_name (c_config chroma_one)) \<and>
   map_option c_total_documents (get_collection_stats_chroma chroma_one) = Some 1 \<and>
   (let (ok1, s1) = clear_collection_chroma chroma_one; (ok2, s2) = clear_collection_chroma s1
    in ok1 \<and> map_option c_total_documents (get_collection_stats_chroma s1) = Some 0 \<and>
       ok2 \<and> map_option c_total_documents (get_collection_stats_chroma s2) = Some 0)"
proof -
  have h: "has_key (client chroma_one) (collection_name (c_config chroma_one))"
    by (simp add: chroma_one_def cfg_ip_def has_key_def)
  have c: "map_option c_total_documents (get_collection_stats_chroma chroma_one) = Some 1"
    by (simp add: chroma_one_def cfg_ip_def get_collection_stats_chroma_def
        collection_count_def)
  from clear_collection_idempotent [of "new_faiss cfg_ip enc_ip" chroma_one] h c
  show ?thesis by blast
qed

subsection \<open>\<open>search\<close> returns live documents\<close>

lemma length_collect_results: "length (collect_results self f hits) \<le> length hits"
  by (induction hits) (auto split: option.splits)

lemma hit_result_live:
  assumes "hit_result self f (s, p) = Some r"
  shows "score r = s \<and> map_of (index_to_id self) (str_int p) = Some (res_id r) \<and>
     (\<exists>dd. map_of (document_store self) (res_id r) = Some dd \<and>
        res_content r = content dd \<and> res_metadata r = metadata dd)"
  using assms by (auto simp: hit_result_def split: option.splits if_splits)

lemma collect_results_hit:
  "r \<in> set (collect_results self f hits) \<Longrightarrow>
   \<exists>h \<in> set hits. snd h \<noteq> - 1 \<and> hit_result self f h = Some r"
proof (induction hits)
  case Nil
  then show ?case by simp
next
  case (Cons h rest)
  from Cons.prems have ne: "snd h \<noteq> - 1" by (auto split: if_splits)
  show ?case
  proof (cases "r \<in> set (collect_results self f rest)")
    case True
    with Cons.IH show ?thesis by auto
  next
    case False
    with Cons.prems ne have "hit_result self f h = Some r"
      by (auto split: option.splits)
    with ne show ?thesis by auto
  qed
qed

lemma collect_results_live:
  assumes "r \<in> set (collect_results self f hits)"
  shows "\<exists>s p dd. (s, p) \<in> set hits \<and> p \<noteq> - 1 \<and> score r = s \<and>
     map_of (index_to_id self) (str_int p) = Some (res_id r) \<and>
     map_of (document_store self) (res_id r) = Some dd \<and>
     res_content r = content dd \<and> res_metadata r = metadata dd"
proof -
  from collect_results_hit [OF assms] obtain s p where
    h: "(s, p) \<in> set hits" "p \<noteq> - 1" "hit_result self f (s, p) = Some r" by auto
  from hit_result_live [OF h(3)] h(1,2) show ?thesis by blast
qed

lemma set_scored: "(s, p) \<in> set (scored ix q) \<Longrightarrow> 0 \<le> p \<and> p < int (ntotal ix)"
  by (auto simp: scored_def ntotal_def in_set_enumerate_eq)

lemma set_ranked: "set (ranked ix q) = set (scored ix q)"
  by (simp add: ranked_def)

lemma index_search_hits:
  assumes "index_search ix q k = Inr hits"
  shows "length hits = k" and "(s, p) \<in> set hits \<Longrightarrow> p \<noteq> - 1 \<Longrightarrow> 0 \<le> p \<and> p < int (ntotal ix)"
proof -
  from assms have h: "hits = take k (ranked ix q) @ replicate (k - length (take k (ranked ix q)))
                     (if kind ix = IndexFlatIP then - flt_max else flt_max, - 1)"
    by (auto simp: index_search_def Let_def split: if_splits)
  then show "length hits = k" by simp
  assume "(s, p) \<in> set hits" "p \<noteq> - 1"
  with h have "(s, p) \<in> set (take k (ranked ix q))" by (auto split: if_splits)
  then have "(s, p) \<in> set (scored ix q)" using set_ranked by (metis in_set_takeD)
  then show "0 \<le> p \<and> p < int (ntotal ix)" by (rule set_scored)
qed

text \<open>
  C10. \<open>search\<close> on the FAISS backend returns at most \<open>top_k\<close> results, and each
  result is a live document: its id is a key of \<open>document_store\<close>, its content and
  metadata are the stored ones, and it comes from a position of the raw index that has this
  id in \<open>index_to_id\<close>; positions without an entry add no result.
\<close>

theorem search_results_live:
  "length (search self query top_k filter_dict) \<le> top_k \<and>
   (\<forall>r \<in> set (search self query top_k filter_dict).
      \<exists>dd p. map_of (document_store self) (res_id r) = Some dd \<and>
        res_content r = content dd \<and> res_metadata r = metadata dd \<and>
        0 \<le> p \<and> p < int (ntotal (index self)) \<and>
        map_of (index_to_id self) (str_int p) = Some (res_id r))"
proof (cases "index_search (index self)
    (if index_type (config self) = ''IndexFlatIP''
     then normalize_L2 (embedding_model self query) else embedding_model self query) top_k")
  case (Inl e)
  then show ?thesis by (simp add: search_def Let_def)
next
  case (Inr hits)
  then have s: "search self query top_k filter_dict = collect_results self filter_dict hits"
    by (simp add: search_def Let_def)
  have "length (collect_results self filter_dict hits) \<le> top_k"
    using length_collect_results [of self filter_dict hits] index_search_hits(1) [OF Inr] by simp
  moreover have "\<exists>dd p. map_of (document_store self) (res_id r) = Some dd \<and>
        res_content r = content dd \<and> res_metadata r = metadata dd \<and>
        0 \<le> p \<and> p < int (ntotal (index self)) \<and>
        map_of (index_to_id self) (str_int p) = Some (res_id r)"
    if "r \<in> set (collect_results self filter_dict hits)" for r
  proof -
    from collect_results_live [OF that] obtain s p dd where
      *: "(s, p) \<in> set hits" "p \<noteq> - 1"
      "map_of (index_to_id self) (str_int p) = Some (res_id r)"
      "map_of (document_store self) (res_id r) = Some dd"
      "res_content r = content dd" "res_metadata r = metadata dd" by blast
    from index_search_hits(2) [OF Inr *(1,2)] * show ?thesis by blast
  qed
  ultimately show ?thesis unfolding s by blast
qed


theorem search_results_live_witness:
  "map res_id (search faiss_ab ''x'' 2 None) = [''a'', ''b''] \<and>
   length (search faiss_ab ''x'' 2 None) \<le> 2 \<and>
   (\<exists>dd p. map_of (document_store faiss_ab) ''a'' = Some dd \<and>
      res_content (hd (search faiss_ab ''x'' 2 None)) = content dd \<and>
      res_metadata (hd (search faiss_ab ''x'' 2 None)) = metadata dd \<and>
      0 \<le> p \<and> p < int (ntotal (index faiss_ab)) \<and>
      map_of (index_to_id faiss_ab) (str_int p) = Some ''a'')"
proof -
  have ids: "map res_id (search faiss_ab ''x'' 2 None) = [''a'', ''b'']"
    by (simp add: faiss_ab_def model_defs input_defs)
  then have "hd (search faiss_ab ''x'' 2 None) \<in> set (search faiss_ab ''x'' 2 None)"
    and "res_id (hd (search faiss_ab ''x'' 2 None)) = ''a''"
    by (cases "search faiss_ab ''x'' 2 None"; simp)+
  with ids search_results_live [of faiss_ab "''x''" 2 None] show ?thesis
    by metis
qed

subsection \<open>Backend selection\<close>

lemma config_faiss_init [simp]: "config (faiss_init cfg enc dsk) = cfg"
  by (simp add: faiss_init_def initialize_db_def load_index_def create_index_def Let_def
      split: option.splits metadata_file.splits)

lemma chroma_init_config:
  "chroma_init cfg enc cl = Inr db \<Longrightarrow> c_config db = cfg"
  by (auto simp: chroma_init_def get_collection_def create_collection_def split: if_splits sum.splits)

lemma chroma_init_total: "\<exists>db. chroma_init cfg enc cl = Inr db"
  by (simp add: chroma_init_def get_collection_def create_collection_def)

text \<open>
  C9. \<open>_create_database\<close>: when the library of the configured backend is missing and
  the other backend can be built, the other backend is built and \<open>config.db_type\<close> is
  set to its name; whenever a backend is returned, its library is available and
  \<open>config.db_type\<close> names it (up to letter case), and the backend holds that
  configuration; a \<open>db_type\<close> that is neither \<open>chroma\<close> nor \<open>faiss\<close> raises
  \<open>ValueError\<close>.
\<close>

theorem create_database_fallback:
  "(lower (db_type cfg) = ''chroma'' \<and> \<not> CHROMA_AVAILABLE env \<and> FAISS_AVAILABLE env \<and>
      SENTENCE_TRANSFORMERS_AVAILABLE env \<longrightarrow>
    create_database env cfg enc cl dsk =
      Inr (cfg\<lparr>db_type := ''faiss''\<rparr>, Faiss (faiss_init (cfg\<lparr>db_type := ''faiss''\<rparr>) enc dsk))) \<and>
   (lower (db_type cfg) = ''faiss'' \<and> \<not> FAISS_AVAILABLE env \<and> CHROMA_AVAILABLE env \<and>
      SENTENCE_TRANSFORMERS_AVAILABLE env \<longrightarrow>
    (\<exists>db. create_database env cfg enc cl dsk = Inr (cfg\<lparr>db_type := ''chroma''\<rparr>, Chroma db))) \<and>
   (\<forall>cfg' db. create_database env cfg enc cl dsk = Inr (cfg', db) \<longrightarrow>
      (case db of
         Chroma c \<Rightarrow> CHROMA_AVAILABLE env \<and> lower (db_type cfg') = ''chroma'' \<and> c_config c = cfg'
       | Faiss f \<Rightarrow> FAISS_AVAILABLE env \<and> lower (db_type cfg') = ''faiss'' \<and> config f = cfg')) \<and>
   (lower (db_type cfg) \<noteq> ''chroma'' \<and> lower (db_type cfg) \<noteq> ''faiss'' \<longrightarrow>
    create_database env cfg enc cl dsk = Inl ValueError)"
proof (intro conjI impI allI)
  assume "lower (db_type cfg) = ''chroma'' \<and> \<not> CHROMA_AVAILABLE env \<and> FAISS_AVAILABLE env \<and>
      SENTENCE_TRANSFORMERS_AVAILABLE env"
  then show "create_database env cfg enc cl dsk =
      Inr (cfg\<lparr>db_type := ''faiss''\<rparr>, Faiss (faiss_init (cfg\<lparr>db_type := ''faiss''\<rparr>) enc dsk))"
    by (simp add: create_database_def FAISSVectorDB_new_def Let_def)
next
  assume a: "lower (db_type cfg) = ''faiss'' \<and> \<not> FAISS_AVAILABLE env \<and> CHROMA_AVAILABLE env \<and>
      SENTENCE_TRANSFORMERS_AVAILABLE env"
  obtain db where "chroma_init (cfg\<lparr>db_type := ''chroma''\<rparr>) enc cl = Inr db"
    using chroma_init_total by blast
  with a show "\<exists>db. create_database env cfg enc cl dsk = Inr (cfg\<lparr>db_type := ''chroma''\<rparr>, Chroma db)"
    by (simp add: create_database_def ChromaVectorDB_new_def Let_def)
next
  fix cfg' db
  assume "create_database env cfg enc cl dsk = Inr (cfg', db)"
  then show "case db of
         Chroma c \<Rightarrow> CHROMA_AVAILABLE env \<and> lower (db_type cfg') = ''chroma'' \<and> c_config c = cfg'
       | Faiss f \<Rightarrow> FAISS_AVAILABLE env \<and> lower (db_type cfg') = ''faiss'' \<and> config f = cfg'"
    by (auto simp: create_database_def ChromaVectorDB_new_def FAISSVectorDB_new_def Let_def
        lower_def lower_char_def
        split: if_splits sum.splits database.splits dest: chroma_init_config)
next
  assume "lower (db_type cfg) \<noteq> ''chroma'' \<and> lower (db_type cfg) \<noteq> ''faiss''"
  then show "create_database env cfg enc cl dsk = Inl ValueError"
    by (simp add: create_database_def)
qed


theorem create_database_fallback_witness:
  "(lower (db_type cfg_chroma) = ''chroma'' \<and> \<not> CHROMA_AVAILABLE env_no_chroma \<and>
    FAISS_AVAILABLE env_no_chroma \<and> SENTENCE_TRANSFORMERS_AVAILABLE env_no_chroma) \<and>
   create_database env_no_chroma cfg_chroma enc_ip [] empty_disk =
     Inr (cfg_chroma\<lparr>db_type := ''faiss''\<rparr>,
          Faiss (faiss_init (cfg_chroma\<lparr>db_type := ''faiss''\<rparr>) enc_ip empty_disk)) \<and>
   (lower (db_type cfg_ip) = ''faiss'' \<and> \<not> FAISS_AVAILABLE env_no_faiss \<and>
    CHROMA_AVAILABLE env_no_faiss \<and> SENTENCE_TRANSFORMERS_AVAILABLE env_no_faiss) \<and>
   (\<exists>db. create_database env_no_faiss cfg_ip enc_ip [] empty_disk =
      Inr (cfg_ip\<lparr>db_type := ''chroma''\<rparr>, Chroma db)) \<and>
   (lower (db_type cfg_unknown) \<noteq> ''chroma'' \<and> lower (db_type cfg_unknown) \<noteq> ''faiss'') \<and>
   create_database env_no_chroma cfg_unknown enc_ip [] empty_disk = Inl ValueError"
proof -
  have h1: "lower (db_type cfg_chroma) = ''chroma'' \<and> \<not> CHROMA_AVAILABLE env_no_chroma \<and>
    FAISS_AVAILABLE env_no_chroma \<and> SENTENCE_TRANSFORMERS_AVAILABLE env_no_chroma"
    by (simp add: cfg_chroma_def cfg_ip_def env_no_chroma_def lower_def lower_char_def)
  have h2: "lower (db_type cfg_ip) = ''faiss'' \<and> \<not> FAISS_AVAILABLE env_no_faiss \<and>
    CHROMA_AVAILABLE env_no_faiss \<and> SENTENCE_TRANSFORMERS_AVAILABLE env_no_faiss"
    by (simp add: cfg_ip_def env_no_faiss_def lower_def lower_char_def)
  have h3: "lower (db_type cfg_unknown) \<noteq> ''chroma'' \<and> lower (db_type cfg_unknown) \<noteq> ''faiss''"
    by (simp add: cfg_unknown_def cfg_ip_def lower_def lower_char_def)
  from h1 h2 h3
    create_database_fallback [of cfg_chroma env_no_chroma enc_ip "[]" empty_disk]
    create_database_fallback [of cfg_ip env_no_faiss enc_ip "[]" empty_disk]
    create_database_fallback [of cfg_unknown env_no_chroma enc_ip "[]" empty_disk]
  show ?thesis by blast
qed

subsection \<open>Behaviour at particular inputs\<close>

text \<open>
  C6 at a Chroma collection that holds the id \<open>a\<close> only: \<open>delete_document\<close> of the
  unknown id \<open>ghost\<close> returns \<open>True\<close> (and leaves the object as it is), where
  \<open>FAISSVectorDB.delete_document\<close> returns \<open>False\<close> for an id that is not in
  \<open>document_store\<close>.
\<close>

theorem delete_document_chroma_unknown_id:
  "map_of (client chroma_one) (collection chroma_one) =
     Some [(''a'', \<lparr>e_embedding = [1, 0], e_document = ''x'', e_metadata = []\<rparr>)] \<and>
   delete_document_chroma chroma_one ''ghost'' = (True, chroma_one) \<and>
   delete_document faiss_ab ''ghost'' = (False, faiss_ab)"
  by (simp add: chroma_one_def delete_document_chroma_def collection_delete_def
      faiss_ab_def model_defs input_defs)

text \<open>
  C3 at an \<open>IndexFlatL2\<close> index holding \<open>a\<close> (embedding 0) and \<open>b\<close> (embedding 3),
  queried with the content of \<open>a\<close>: the results come with score 0 for \<open>a\<close>, then
  score 9 for \<open>b\<close>; the scores ascend, and the exact match has the lowest score.
\<close>

theorem search_l2_scores_ascend:
  "map (\<lambda>r. (res_id r, score r)) (search faiss_l2_ab ''x'' 2 None) = [(''a'', 0), (''b'', 9)]"
  by (simp add: faiss_l2_ab_def model_defs input_defs)

text \<open>
  C2 at a batch whose second document has no \<open>id\<close>: \<open>add_documents\<close> returns
  \<open>False\<close>, yet the raw index has grown by two vectors and the first document is in
  \<open>document_store\<close> and in both mappings; nothing was saved.
\<close>

theorem add_documents_partial_failure:
  "(let (ok, self') = add_documents (new_faiss cfg_ip enc_ip) [doc_a, doc_no_id]
    in \<not> ok \<and> ntotal (index self') = 2 \<and> map fst (document_store self') = [''a''] \<and>
       id_to_index self' = [(''a'', 0)] \<and> index_to_id self' = [(''0'', ''a'')] \<and>
       files self' = files (new_faiss cfg_ip enc_ip)) \<and>
   ntotal (index (new_faiss cfg_ip enc_ip)) = 0 \<and>
   document_store (new_faiss cfg_ip enc_ip) = []"
  by (simp add: model_defs input_defs)

subsection \<open>\<open>search\<close> as a filter of the ranking\<close>

lemma length_normalize_L2 [simp]: "length (normalize_L2 x) = length x"
  by (simp add: normalize_L2_def Let_def)

lemma collect_results_map_filter:
  "\<forall>h \<in> set xs. snd h \<noteq> - 1 \<Longrightarrow>
   collect_results self f (xs @ replicate n (s, - 1)) = List.map_filter (hit_result self f) xs"
proof (induction xs)
  case Nil
  show ?case by (cases n) (simp_all add: List.map_filter_simps)
next
  case (Cons h xs)
  then show ?case by (simp add: List.map_filter_simps split: option.splits)
qed

lemma ranked_positions: "h \<in> set (ranked ix q) \<Longrightarrow> 0 \<le> snd h \<and> snd h < int (ntotal ix)"
  by (cases h) (simp add: set_ranked set_scored)

lemma search_eq:
  assumes "length (prep self (embedding_model self query)) = dim (index self)" "0 < top_k"
  shows "search self query top_k f =
    List.map_filter (hit_result self f)
      (take top_k (ranked (index self) (prep self (embedding_model self query))))"
proof -
  have "\<forall>h \<in> set (take top_k (ranked (index self) (prep self (embedding_model self query)))).
          snd h \<noteq> - 1"
    using ranked_positions by (fastforce dest: in_set_takeD)
  from collect_results_map_filter [OF this] assms show ?thesis
    by (simp add: search_def index_search_def Let_def prep_def)
qed

lemma hit_result_filter:
  "hit_result self (Some fd) h =
     (case hit_result self None h of
        None \<Rightarrow> None
      | Some r \<Rightarrow> if matches (res_metadata r) fd then Some r else None)"
  by (cases h) (auto simp: hit_result_def matches_def split: option.splits)

lemma collect_results_post_filter:
  "collect_results self (Some fd) hits =
   filter (\<lambda>r. matches (res_metadata r) fd) (collect_results self None hits)"
  by (induction hits) (auto simp: hit_result_filter split: option.splits)

lemma search_post_filter:
  "search self query top_k (Some fd) =
   filter (\<lambda>r. matches (res_metadata r) fd) (search self query top_k None)"
  by (simp add: search_def Let_def collect_results_post_filter split: sum.splits)

lemma map_score_map_filter:
  "map score (List.map_filter (hit_result self f) hs) =
   map fst (filter (\<lambda>h. hit_result self f h \<noteq> None) hs)"
proof (induction hs)
  case Nil
  show ?case by (simp add: List.map_filter_simps)
next
  case (Cons h hs)
  then show ?case
    by (cases h) (auto simp: List.map_filter_simps dest: hit_result_live split: option.splits)
qed

lemma sorted_ranked:
  "kind ix = IndexFlatIP \<Longrightarrow> sorted (map (\<lambda>h. - fst h) (ranked ix q))"
  "kind ix \<noteq> IndexFlatIP \<Longrightarrow> sorted (map fst (ranked ix q))"
proof -
  have a: "(\<lambda>h. - fst h) = (\<lambda>(s :: real, i :: int). - s)" by auto
  have b: "fst = (\<lambda>(s :: real, i :: int). s)" by auto
  show "kind ix = IndexFlatIP \<Longrightarrow> sorted (map (\<lambda>h. - fst h) (ranked ix q))"
    unfolding a by (simp add: ranked_def)
  show "kind ix \<noteq> IndexFlatIP \<Longrightarrow> sorted (map fst (ranked ix q))"
    unfolding b by (simp add: ranked_def)
qed

lemma sorted_map_take_filter:
  "sorted (map f xs) \<Longrightarrow> sorted (map f (filter P (take n xs)))"
  by (metis sorted_filter sorted_wrt_take take_map)

lemma search_sorted:
  "(kind (index self) = IndexFlatIP \<longrightarrow>
      sorted (map (\<lambda>r. - score r) (search self query top_k f))) \<and>
   (kind (index self) \<noteq> IndexFlatIP \<longrightarrow> sorted (map score (search self query top_k f)))"
proof (cases "length (prep self (embedding_model self query)) = dim (index self) \<and> 0 < top_k")
  case True
  let ?hs = "ranked (index self) (prep self (embedding_model self query))"
  let ?P = "\<lambda>h. hit_result self f h \<noteq> None"
  have s: "map score (search self query top_k f) = map fst (filter ?P (take top_k ?hs))"
    using True by (simp add: search_eq map_score_map_filter)
  have "map (\<lambda>r. - score r) (search self query top_k f)
      = map uminus (map score (search self query top_k f))" by simp
  also have "\<dots> = map (\<lambda>h. - fst h) (filter ?P (take top_k ?hs))"
    unfolding s by simp
  finally have m: "map (\<lambda>r. - score r) (search self query top_k f)
      = map (\<lambda>h. - fst h) (filter ?P (take top_k ?hs))" .
  show ?thesis
    unfolding m s using sorted_ranked sorted_map_take_filter by blast
next
  case False
  then have "search self query top_k f = []"
    by (auto simp: search_def index_search_def prep_def Let_def)
  then show ?thesis by simp
qed

subsection \<open>The metadata filter\<close>

lemma three_tagged_state:
  assumes "length (enc cA) = dimension cfg" "length (enc cB) = dimension cfg"
    "length (enc cC) = dimension cfg"
  defines "st \<equiv> snd (add_documents (new_faiss cfg enc)
           [tagged ''A'' cA ''x'', tagged ''B'' cB ''y'', tagged ''C'' cC ''x''])"
  shows "config st = cfg" "embedding_model st = enc" "dim (index st) = dimension cfg"
    "vectors (index st) = [prep st (enc cA), prep st (enc cB), prep st (enc cC)]"
    "index_to_id st = [(''0'', ''A''), (''1'', ''B''), (''2'', ''C'')]"
    "document_store st =
       [(''A'', \<lparr>content = cA, metadata = [(''tag'', PStr ''x'')], faiss_index = 0\<rparr>),
        (''B'', \<lparr>content = cB, metadata = [(''tag'', PStr ''y'')], faiss_index = 1\<rparr>),
        (''C'', \<lparr>content = cC, metadata = [(''tag'', PStr ''x'')], faiss_index = 2\<rparr>)]"
  using assms(1-3) unfolding st_def
  by (simp_all add: tagged_def add_documents_def add_documents_body_def
      add_documents_pending_def new_faiss_def
      faiss_init_def initialize_db_def create_index_def encode_def index_add_def ntotal_def
      save_index_def save_index_steps_def save_index_passes_def str_int_def str_nat.simps
      digit_char_def Let_def
      prep_def)

lemma three_tagged_search:
  assumes "length (enc cA) = dimension cfg" "length (enc cB) = dimension cfg"
    "length (enc cC) = dimension cfg" "length (enc query) = dimension cfg"
  defines "st \<equiv> snd (add_documents (new_faiss cfg enc)
           [tagged ''A'' cA ''x'', tagged ''B'' cB ''y'', tagged ''C'' cC ''x''])"
  shows "map res_id (search st query 3 (Some [(''tag'', PStr ''x'')])) = [''A'', ''C''] \<or>
         map res_id (search st query 3 (Some [(''tag'', PStr ''x'')])) = [''C'', ''A'']"
proof -
  note s = three_tagged_state [OF assms(1-3), folded st_def]
  let ?f = "Some [(''tag'', PStr ''x'')]"
  let ?q = "prep st (enc query)"
  let ?g = "hit_result st ?f"
  have len: "length ?q = dim (index st)"
    using assms(4) s(1,3) by (simp add: prep_def)
  have sc: "scored (index st) ?q =
      [(fst (scored (index st) ?q ! 0), 0), (fst (scored (index st) ?q ! 1), 1),
       (fst (scored (index st) ?q ! 2), 2)]"
    by (simp add: scored_def s(4))
  obtain a b c where abc: "scored (index st) ?q = [(a, 0), (b, 1), (c, 2)]"
    using sc by blast
  have g: "?g (a, 0) \<noteq> None" "?g (b, 1) = None" "?g (c, 2) \<noteq> None"
    "res_id (the (?g (a, 0))) = ''A''" "res_id (the (?g (c, 2))) = ''C''"
    by (simp_all add: hit_result_def s(5,6) str_int_def str_nat.simps digit_char_def
        matches_def md_get_def)
  have r: "ranked (index st) ?q = sort_key (\<lambda>(s, i). - s) [(a, 0), (b, 1), (c, 2)] \<or>
           ranked (index st) ?q = sort_key (\<lambda>(s, i). s) [(a, 0), (b, 1), (c, 2)]"
    by (simp add: ranked_def abc)
  have l3: "length (ranked (index st) ?q) = 3"
    using r by auto
  have "search st query 3 ?f = List.map_filter ?g (take 3 (ranked (index st) ?q))"
    using search_eq [of st query 3 ?f] len s(2) by simp
  also have "\<dots> = map (the \<circ> ?g) (filter (\<lambda>h. ?g h \<noteq> None) (ranked (index st) ?q))"
    using l3 by (simp add: List.map_filter_def)
  finally have e: "search st query 3 ?f =
      map (the \<circ> ?g) (filter (\<lambda>h. ?g h \<noteq> None) (ranked (index st) ?q))" .
  from r show ?thesis
  proof
    assume "ranked (index st) ?q = sort_key (\<lambda>(s, i). - s) [(a, 0), (b, 1), (c, 2)]"
    then have "filter (\<lambda>h. ?g h \<noteq> None) (ranked (index st) ?q) =
        sort_key (\<lambda>(s, i). - s) (filter (\<lambda>h. ?g h \<noteq> None) [(a, 0), (b, 1), (c, 2)])"
      by (simp only: filter_sort)
    also have "\<dots> = sort_key (\<lambda>(s, i). - s) [(a, 0), (c, 2)]"
      using g(1-3) by simp
    finally show ?thesis unfolding e using g(4,5) by (auto simp: insort_key.simps)
  next
    assume "ranked (index st) ?q = sort_key (\<lambda>(s, i). s) [(a, 0), (b, 1), (c, 2)]"
    then have "filter (\<lambda>h. ?g h \<noteq> None) (ranked (index st) ?q) =
        sort_key (\<lambda>(s, i). s) (filter (\<lambda>h. ?g h \<noteq> None) [(a, 0), (b, 1), (c, 2)])"
      by (simp only: filter_sort)
    also have "\<dots> = sort_key (\<lambda>(s, i). s) [(a, 0), (c, 2)]"
      using g(1-3) by simp
    finally show ?thesis unfolding e using g(4,5) by (auto simp: insort_key.simps)
  qed
qed


text \<open>
  C4. The metadata filter of \<open>search\<close> is a post-filter: the results with a filter are
  the results without it, in the same order, less those whose metadata fails the filter (so
  the candidates are the \<open>top_k\<close> of the raw index, and fewer than \<open>top_k\<close> results
  may come back); every result satisfies every pair of the filter. With \<open>A\<close> (tag x),
  \<open>B\<close> (tag y) and \<open>C\<close> (tag x) added to a new index, whatever the embedding,
  \<open>search(top_k=3, filter={tag: x})\<close> returns exactly \<open>A\<close> and \<open>C\<close>, in the
  order of their scores.
\<close>

theorem search_filter_post_filter:
  "search self query top_k (Some fd) =
     filter (\<lambda>r. matches (res_metadata r) fd) (search self query top_k None) \<and>
   (\<forall>r \<in> set (search self query top_k (Some fd)).
      \<forall>(k, v) \<in> set fd. md_get (res_metadata r) k PNone = v) \<and>
   (length (enc cA) = dimension cfg \<and> length (enc cB) = dimension cfg \<and>
    length (enc cC) = dimension cfg \<and> length (enc q) = dimension cfg \<longrightarrow>
    (let st = snd (add_documents (new_faiss cfg enc)
                [tagged ''A'' cA ''x'', tagged ''B'' cB ''y'', tagged ''C'' cC ''x'']);
         res = search st q 3 (Some [(''tag'', PStr ''x'')])
     in (map res_id res = [''A'', ''C''] \<or> map res_id res = [''C'', ''A'']) \<and>
        (kind (index st) = IndexFlatIP \<longrightarrow> sorted (map (\<lambda>r. - score r) res)) \<and>
        (kind (index st) \<noteq> IndexFlatIP \<longrightarrow> sorted (map score res))))"
proof (intro conjI impI ballI)
  show pf: "search self query top_k (Some fd) =
     filter (\<lambda>r. matches (res_metadata r) fd) (search self query top_k None)"
    by (rule search_post_filter)
  fix r kv
  assume "r \<in> set (search self query top_k (Some fd))" "kv \<in> set fd"
  then have "matches (res_metadata r) fd" "kv \<in> set fd"
    unfolding pf by simp_all
  then show "case kv of (k, v) \<Rightarrow> md_get (res_metadata r) k PNone = v"
    by (auto simp: matches_def list_all_iff)
next
  assume a: "length (enc cA) = dimension cfg \<and> length (enc cB) = dimension cfg \<and>
    length (enc cC) = dimension cfg \<and> length (enc q) = dimension cfg"
  then show "let st = snd (add_documents (new_faiss cfg enc)
                [tagged ''A'' cA ''x'', tagged ''B'' cB ''y'', tagged ''C'' cC ''x'']);
         res = search st q 3 (Some [(''tag'', PStr ''x'')])
     in (map res_id res = [''A'', ''C''] \<or> map res_id res = [''C'', ''A'']) \<and>
        (kind (index st) = IndexFlatIP \<longrightarrow> sorted (map (\<lambda>r. - score r) res)) \<and>
        (kind (index st) \<noteq> IndexFlatIP \<longrightarrow> sorted (map score res))"
    using three_tagged_search [of enc cA cfg cB cC q] search_sorted
    unfolding Let_def by blast
qed

theorem search_filter_post_filter_witness:
  "(length (enc_xyz ''x'') = dimension cfg_ip \<and> length (enc_xyz ''y'') = dimension cfg_ip \<and>
    length (enc_xyz ''z'') = dimension cfg_ip) \<and>
   map (\<lambda>r. (res_id r, score r)) (search faiss_tagged ''x'' 3 None) =
     [(''A'', 1), (''C'', 3 / 5), (''B'', 0)] \<and>
   map (\<lambda>r. (res_id r, score r)) (search faiss_tagged ''x'' 3 (Some [(''tag'', PStr ''x'')])) =
     [(''A'', 1), (''C'', 3 / 5)] \<and>
   search faiss_tagged ''x'' 3 (Some [(''tag'', PStr ''x'')]) =
     filter (\<lambda>r. matches (res_metadata r) [(''tag'', PStr ''x'')])
       (search faiss_tagged ''x'' 3 None) \<and>
   md_get (res_metadata (hd (search faiss_tagged ''x'' 3 (Some [(''tag'', PStr ''x'')]))))
     ''tag'' PNone = PStr ''x'' \<and>
   kind (index faiss_tagged) = IndexFlatIP \<and>
   sorted (map (\<lambda>r. - score r) (search faiss_tagged ''x'' 3 (Some [(''tag'', PStr ''x'')])))"
proof -
  let ?f = "[(''tag'', PStr ''x'')]"
  let ?res = "search faiss_tagged ''x'' 3 (Some ?f)"
  have d: "length (enc_xyz ''x'') = dimension cfg_ip \<and> length (enc_xyz ''y'') = dimension cfg_ip \<and>
    length (enc_xyz ''z'') = dimension cfg_ip"
    by (simp add: input_defs)
  have n: "map (\<lambda>r. (res_id r, score r)) (search faiss_tagged ''x'' 3 None) =
     [(''A'', 1), (''C'', 3 / 5), (''B'', 0)]"
    by (simp add: faiss_tagged_def tagged_def model_defs input_defs)
  have f: "map (\<lambda>r. (res_id r, score r)) ?res = [(''A'', 1), (''C'', 3 / 5)]"
    by (simp add: faiss_tagged_def tagged_def model_defs input_defs)
  have k: "kind (index faiss_tagged) = IndexFlatIP"
    by (simp add: faiss_tagged_def tagged_def model_defs input_defs)
  from f have h: "hd ?res \<in> set ?res" by (cases ?res) simp_all
  note t = search_filter_post_filter [of faiss_tagged "''x''" 3 ?f enc_xyz "''x''" cfg_ip
      "''y''" "''z''" "''x''"]
  from t [THEN conjunct2, THEN conjunct1] h
  have m: "md_get (res_metadata (hd ?res)) ''tag'' PNone = PStr ''x''"
    by fastforce
  from d have d4: "length (enc_xyz ''x'') = dimension cfg_ip \<and>
    length (enc_xyz ''y'') = dimension cfg_ip \<and> length (enc_xyz ''z'') = dimension cfg_ip \<and>
    length (enc_xyz ''x'') = dimension cfg_ip" by simp
  from t [THEN conjunct2, THEN conjunct2, THEN mp, OF d4] k
  have s: "sorted (map (\<lambda>r. - score r) ?res)"
    unfolding Let_def faiss_tagged_def by blast
  note p = t [THEN conjunct1]
  from d n f p m k s show ?thesis by blast
qed

text \<open>
  The candidates are cut to \<open>top_k\<close> before the filter is applied: asked for one result
  with the filter \<open>tag = x\<close>, the index ranks \<open>B\<close> (tag y) first for this query and
  nothing is returned, although \<open>C\<close> and \<open>A\<close> pass the filter.
\<close>

lemma search_filter_after_top_k:
  "search faiss_tagged ''y'' 1 (Some [(''tag'', PStr ''x'')]) = [] \<and>
   map res_id (search faiss_tagged ''y'' 3 (Some [(''tag'', PStr ''x'')])) = [''C'', ''A'']"
  by (simp add: faiss_tagged_def tagged_def model_defs input_defs)

subsection \<open>The decimal encoding of positions is injective\<close>

lemma digit_char_inj: "a < 10 \<Longrightarrow> b < 10 \<Longrightarrow> digit_char a = digit_char b \<Longrightarrow> a = b"
proof -
  assume a: "a < 10" "b < 10" "digit_char a = digit_char b"
  have d: "distinct ''0123456789''" by simp
  have l: "length ''0123456789'' = 10" by simp
  from a show ?thesis unfolding digit_char_def
    using nth_eq_iff_index_eq [OF d, of a b] l by simp
qed

lemma digit_char_not_minus: "a < 10 \<Longrightarrow> digit_char a \<noteq> CHR ''-''"
proof -
  assume "a < 10"
  then have "digit_char a \<in> set ''0123456789''"
    unfolding digit_char_def by (intro nth_mem) simp
  then show ?thesis by auto
qed

lemma str_nat_nonempty [simp]: "str_nat n \<noteq> []" "[] \<noteq> str_nat n"
  by (subst str_nat.simps, simp)+

lemma hd_str_nat: "hd (str_nat n) \<noteq> CHR ''-''"
proof (induction n rule: str_nat.induct)
  case (1 n)
  show ?case
  proof (cases "n < 10")
    case True
    then show ?thesis by (subst str_nat.simps) (simp add: digit_char_not_minus)
  next
    case False
    with 1 show ?thesis by (subst str_nat.simps) simp
  qed
qed

lemma str_nat_inj: "str_nat n = str_nat m \<Longrightarrow> n = m"
proof (induction n arbitrary: m rule: str_nat.induct)
  case (1 n)
  show ?case
  proof (cases "n < 10")
    case n: True
    show ?thesis
    proof (cases "m < 10")
      case True
      with n "1.prems" show ?thesis
        by (simp add: str_nat.simps [of n] str_nat.simps [of m] digit_char_inj)
    next
      case False
      with n "1.prems" show ?thesis
        by (simp add: str_nat.simps [of n] str_nat.simps [of m])
    qed
  next
    case n: False
    show ?thesis
    proof (cases "m < 10")
      case True
      with n "1.prems" show ?thesis
        by (simp add: str_nat.simps [of n] str_nat.simps [of m])
    next
      case False
      with n "1.prems" have e: "str_nat (n div 10) = str_nat (m div 10)"
        "digit_char (n mod 10) = digit_char (m mod 10)"
        by (simp_all add: str_nat.simps [of n] str_nat.simps [of m])
      from "1.IH" [OF n e(1)] have "n div 10 = m div 10" .
      moreover from e(2) have "n mod 10 = m mod 10"
        by (intro digit_char_inj) simp_all
      ultimately show ?thesis by (metis div_mult_mod_eq)
    qed
  qed
qed

lemma str_int_inj: "str_int i = str_int j \<Longrightarrow> i = j"
proof -
  assume e: "str_int i = str_int j"
  have ne: "str_nat a \<noteq> CHR ''-'' # t" for a t
    using hd_str_nat [of a] by (metis list.sel(1))
  show ?thesis
  proof (cases "i < 0")
    case i: True
    show ?thesis
    proof (cases "j < 0")
      case True
      with i e have "str_nat (nat (- i)) = str_nat (nat (- j))" by (simp add: str_int_def)
      then have "nat (- i) = nat (- j)" by (rule str_nat_inj)
      with i True show ?thesis by simp
    next
      case False
      with i e ne show ?thesis by (simp add: str_int_def) metis
    qed
  next
    case i: False
    show ?thesis
    proof (cases "j < 0")
      case True
      with i e ne show ?thesis by (simp add: str_int_def)
    next
      case False
      with i e have "str_nat (nat i) = str_nat (nat j)" by (simp add: str_int_def)
      then have "nat i = nat j" by (rule str_nat_inj)
      with i False show ?thesis by simp
    qed
  qed
qed

lemma str_int_eq_iff [simp]: "str_int i = str_int j \<longleftrightarrow> i = j"
  using str_int_inj by blast

subsection \<open>The loop of \<open>add_documents\<close> keeps the dictionaries linked\<close>

lemma linked_step:
  assumes L: "linked self B (i # pend) D0" and B: "0 \<le> B"
    and len: "length (embedding_model self c) = dimension (config self)"
  shows "linked
     (self\<lparr>document_store :=
              AList.update i \<lparr>content = c, metadata = m, faiss_index = B\<rparr> (document_store self),
            id_to_index := AList.update i B (id_to_index self),
            index_to_id := AList.update (str_int B) i (index_to_id self)\<rparr>)
     (B + 1) pend D0"
proof -
  let ?DS = "map_of (document_store self)"
  let ?IX = "map_of (id_to_index self)"
  let ?XI = "map_of (index_to_id self)"
  from L have ni: "?IX i = None" and nip: "i \<notin> set pend"
    unfolding linked_def by auto
  from L have f: "\<And>j p. ?IX j = Some p \<Longrightarrow> ?XI (str_int p) = Some j \<and> 0 \<le> p \<and> p < B"
    unfolding linked_def by blast
  from L have g: "\<And>k j. ?XI k = Some j \<Longrightarrow> \<exists>p. ?IX j = Some p \<and> k = str_int p"
    unfolding linked_def by blast
  from L have h: "\<And>j dd. ?DS j = Some dd \<Longrightarrow> j \<in> dom ?IX \<Longrightarrow> ?IX j = Some (faiss_index dd)"
    unfolding linked_def by blast
  from L have dm: "\<And>j dd. ?DS j = Some dd \<Longrightarrow>
      length (embedding_model self (content dd)) = dimension (config self)"
    unfolding linked_def by blast
  from L have sub: "dom ?IX \<subseteq> dom ?DS" "dom ?DS - dom ?IX \<subseteq> set (i # pend) \<inter> D0"
    "dom ?IX \<inter> set (i # pend) = {}"
    unfolding linked_def by blast+
  from L have dist: "distinct (map fst (document_store self))"
    "distinct (map fst (id_to_index self))" "distinct (map fst (index_to_id self))"
    "distinct pend"
    unfolding linked_def by auto
  have f': "\<forall>j p. (?IX(i \<mapsto> B)) j = Some p \<longrightarrow>
      (?XI(str_int B \<mapsto> i)) (str_int p) = Some j \<and> 0 \<le> p \<and> p < B + 1"
    using f B by (auto split: if_splits) fastforce+
  have g': "\<forall>k j. (?XI(str_int B \<mapsto> i)) k = Some j \<longrightarrow>
      (\<exists>p. (?IX(i \<mapsto> B)) j = Some p \<and> k = str_int p)"
    using g ni by (auto split: if_splits) fastforce+
  have h': "\<forall>j dd. (?DS(i \<mapsto> \<lparr>content = c, metadata = m, faiss_index = B\<rparr>)) j = Some dd \<longrightarrow>
      j \<in> dom (?IX(i \<mapsto> B)) \<longrightarrow> (?IX(i \<mapsto> B)) j = Some (faiss_index dd)"
    using h by (auto split: if_splits)
  have dm': "\<forall>j dd. (?DS(i \<mapsto> \<lparr>content = c, metadata = m, faiss_index = B\<rparr>)) j = Some dd \<longrightarrow>
      length (embedding_model self (content dd)) = dimension (config self)"
    using dm len by (auto split: if_splits)
  have s': "dom (?IX(i \<mapsto> B)) \<inter> set pend = {}"
    "dom (?IX(i \<mapsto> B)) \<subseteq> dom (?DS(i \<mapsto> \<lparr>content = c, metadata = m, faiss_index = B\<rparr>))"
    "dom (?DS(i \<mapsto> \<lparr>content = c, metadata = m, faiss_index = B\<rparr>)) - dom (?IX(i \<mapsto> B))
       \<subseteq> set pend \<inter> D0"
    using sub nip by auto
  show ?thesis
    unfolding linked_def
    using dist f' g' h' dm' s'
    by (simp add: update_conv' distinct_update)
qed

lemma batch_ids_simps [simp]:
  "batch_ids [] = []"
  "batch_ids (doc # docs) =
     (case doc_id doc of None \<Rightarrow> batch_ids docs | Some i \<Rightarrow> i # batch_ids docs)"
  by (simp_all add: batch_ids_def List.map_filter_simps split: option.splits)

lemma linked_mono:
  "linked self B pend D0 \<Longrightarrow> B \<le> B' \<Longrightarrow> linked self B' pend D0"
  unfolding linked_def by (elim conjE, intro conjI) (assumption | force)+

lemma linked_drop_pending:
  assumes "linked self B (i # pend) D0"
  shows "\<exists>r. linked self B r D0 \<and> set r \<subseteq> set (i # pend)"
  using assms by blast

lemma store_metadata_frame:
  "store_metadata self start ps = (e, self') \<Longrightarrow>
   config self' = config self \<and> embedding_model self' = embedding_model self \<and>
   index self' = index self \<and> files self' = files self"
proof (induction self start ps rule: store_metadata.induct)
  case (1 self start_index)
  then show ?case by simp
next
  case (2 self start_index i doc rest)
  then show ?case
    by (auto simp: Let_def split: option.splits)
qed

lemma store_metadata_linked:
  assumes "linked self (start + int n) (batch_ids docs) D0" "0 \<le> start"
    "\<forall>doc \<in> set docs. \<forall>c. doc_content doc = Some c \<longrightarrow>
       length (embedding_model self c) = dimension (config self)"
    "store_metadata self start (enumerate n docs) = (e, self')"
  shows "\<exists>r. linked self' (start + int n + int (length docs)) r D0 \<and>
     set r \<subseteq> set (batch_ids docs) \<and> (e = None \<longrightarrow> r = [])"
  using assms
proof (induction docs arbitrary: self n)
  case Nil
  then show ?case by auto
next
  case (Cons doc docs)
  have mono: "linked self (start + int n + int (length (doc # docs))) (batch_ids (doc # docs)) D0"
    using Cons.prems(1) by (rule linked_mono) simp
  show ?case
  proof (cases "doc_id doc")
    case None
    with Cons.prems(4) have "self' = self" "e = Some KeyError" by simp_all
    with mono show ?thesis by blast
  next
    case (Some i)
    show ?thesis
    proof (cases "doc_content doc")
      case None
      with Some Cons.prems(4) have "self' = self" "e = Some KeyError"
        by (simp_all add: Let_def)
      with mono show ?thesis by blast
    next
      case c: (Some c)
      let ?B = "start + int n"
      let ?m = "case doc_metadata doc of None \<Rightarrow> [] | Some m \<Rightarrow> m"
      let ?self1 = "self\<lparr>document_store :=
              AList.update i \<lparr>content = c, metadata = ?m, faiss_index = ?B\<rparr> (document_store self),
            id_to_index := AList.update i ?B (id_to_index self),
            index_to_id := AList.update (str_int ?B) i (index_to_id self)\<rparr>"
      from Cons.prems(1) Some have L: "linked self ?B (i # batch_ids docs) D0" by simp
      have len: "length (embedding_model self c) = dimension (config self)"
        using Cons.prems(3) c by simp
      have B: "0 \<le> ?B" using Cons.prems(2) by simp
      have eq: "start + int n + 1 = start + int (Suc n)" by simp
      from linked_step [OF L B len, of ?m]
      have L1: "linked ?self1 (start + int (Suc n)) (batch_ids docs) D0"
        by (simp only: eq)
      have p3: "\<forall>doc \<in> set docs. \<forall>c. doc_content doc = Some c \<longrightarrow>
          length (embedding_model ?self1 c) = dimension (config ?self1)"
        using Cons.prems(3) by simp
      have run: "store_metadata ?self1 start (enumerate (Suc n) docs) = (e, self')"
        using Cons.prems(4) Some c by (simp add: Let_def)
      from Cons.IH [OF L1 Cons.prems(2) p3 run] obtain r where
        r: "linked self' (start + int (Suc n) + int (length docs)) r D0"
        "set r \<subseteq> set (batch_ids docs)" "e = None \<longrightarrow> r = []" by blast
      have eq2: "start + int (Suc n) + int (length docs) =
          start + int n + int (length (doc # docs))" by simp
      from r(1) have "linked self' (start + int n + int (length (doc # docs))) r D0"
        by (simp only: eq2)
      with r(2,3) Some show ?thesis by auto
    qed
  qed
qed

subsection \<open>The two outcomes of \<open>add_documents\<close>\<close>

lemma add_documents_unchanged:
  "\<not> list_all (\<lambda>doc. doc_content doc \<noteq> None) docs \<or> docs = [] \<or>
   index_add (index self) (batch_vectors self docs) = Inl e \<Longrightarrow>
   add_documents self docs = (False, self)"
  by (auto simp: add_documents_def add_documents_body_def add_documents_pending_def
      encode_def Let_def
      batch_vectors_def prep_def comp_def)

lemma add_documents_stored:
  assumes "list_all (\<lambda>doc. doc_content doc \<noteq> None) docs" "docs \<noteq> []"
    "index_add (index self) (batch_vectors self docs) = Inr ix"
    "store_metadata (self\<lparr>index := ix\<rparr>) (int (ntotal (index self))) (enumerate 0 docs) =
       (e, self')"
  shows "add_documents self docs =
    (case e of None \<Rightarrow> (True, save_index self') | Some x \<Rightarrow> (False, self'))"
  using assms
  by (auto simp: add_documents_def add_documents_body_def add_documents_pending_def
      encode_def Let_def
      batch_vectors_def prep_def comp_def split: option.splits)

subsection \<open>The invariant is kept by every call\<close>

lemma linked_cong:
  assumes "document_store s' = document_store s" "id_to_index s' = id_to_index s"
    "index_to_id s' = index_to_id s" "embedding_model s' = embedding_model s"
    "config s' = config s"
  shows "linked s' B pend D0 = linked s B pend D0"
  unfolding linked_def assms ..

lemma linked_finish: "linked self B r {} \<Longrightarrow> linked self B [] D1"
  unfolding linked_def by (elim conjE, intro conjI) (assumption | simp | blast)+

lemma linked_nil: "linked self B [] D0 \<Longrightarrow> linked self B [] D1"
  unfolding linked_def by (elim conjE, intro conjI) (assumption | simp | blast)+

lemma inv_save_index [simp]: "inv (save_index self) = inv self"
  by (simp add: inv_def save_index_def linked_cong [of "self\<lparr>files := f\<rparr>" self for f])

lemma inv_new_faiss: "inv (new_faiss cfg enc)"
  by (simp add: inv_def linked_def new_faiss_def faiss_init_def initialize_db_def
      create_index_def ntotal_def Let_def)

lemma fresh_linked:
  assumes "linked self B [] {}" "distinct ids" "\<forall>i \<in> set ids. \<not> has_key (document_store self) i"
  shows "linked self B ids {}"
proof -
  from assms(1) have sub: "dom (map_of (id_to_index self)) \<subseteq> dom (map_of (document_store self))"
    unfolding linked_def by blast
  from assms(3) have "dom (map_of (document_store self)) \<inter> set ids = {}"
    by (auto simp: has_key_def)
  with sub have "dom (map_of (id_to_index self)) \<inter> set ids = {}" by blast
  with assms(1,2) show ?thesis
    unfolding linked_def by (elim conjE, intro conjI) (assumption | simp | blast)+
qed

lemma index_add_Inr:
  "index_add ix0 xs = Inr ix \<Longrightarrow>
   ix = ix0\<lparr>vectors := vectors ix0 @ xs\<rparr> \<and> (\<forall>x \<in> set xs. length x = dim ix0)"
  by (auto simp: index_add_def list_all_iff split: if_splits)

lemma length_prep [simp]: "length (prep self x) = length x"
  by (simp add: prep_def)

lemma add_documents_inv:
  assumes I: "inv self" and F: "fresh_call self (Add docs)"
  shows "inv (snd (add_documents self docs))"
proof (cases "list_all (\<lambda>doc. doc_content doc \<noteq> None) docs \<and> docs \<noteq> []")
  case False
  then have "add_documents self docs = (False, self)"
    using add_documents_unchanged [of docs self] by blast
  with I show ?thesis by simp
next
  case True
  show ?thesis
  proof (cases "index_add (index self) (batch_vectors self docs)")
    case (Inl e)
    then have "add_documents self docs = (False, self)"
      using add_documents_unchanged [of docs self e] by blast
    with I show ?thesis by simp
  next
    case (Inr ix)
    from index_add_Inr [OF Inr]
    have ix: "ix = (index self)\<lparr>vectors := vectors (index self) @ batch_vectors self docs\<rparr>"
      and ok: "\<forall>x \<in> set (batch_vectors self docs). length x = dim (index self)"
      by simp_all
    from I have dimeq: "dim (index self) = dimension (config self)"
      and L0: "linked self (int (ntotal (index self))) [] {}"
      by (simp_all add: inv_def)
    have dims: "\<forall>doc \<in> set docs. \<forall>c. doc_content doc = Some c \<longrightarrow>
        length (embedding_model (self\<lparr>index := ix\<rparr>) c) = dimension (config (self\<lparr>index := ix\<rparr>))"
    proof (intro ballI allI impI)
      fix doc c assume d: "doc \<in> set docs" "doc_content doc = Some c"
      then have "prep self (embedding_model self c) \<in> set (batch_vectors self docs)"
        unfolding batch_vectors_def by force
      with ok have "length (prep self (embedding_model self c)) = dim (index self)"
        by blast
      with dimeq show "length (embedding_model (self\<lparr>index := ix\<rparr>) c) =
          dimension (config (self\<lparr>index := ix\<rparr>))" by simp
    qed
    from F have fr: "distinct (batch_ids docs)"
      "\<forall>i \<in> set (batch_ids docs). \<not> has_key (document_store self) i"
      by (simp_all add: list_all_iff)
    have L1: "linked (self\<lparr>index := ix\<rparr>) (int (ntotal (index self)) + int 0) (batch_ids docs) {}"
      using fresh_linked [OF L0 fr]
      by (simp add: linked_cong [of "self\<lparr>index := ix\<rparr>" self])
    obtain e self' where run: "store_metadata (self\<lparr>index := ix\<rparr>) (int (ntotal (index self)))
        (enumerate 0 docs) = (e, self')"
      by (cases "store_metadata (self\<lparr>index := ix\<rparr>) (int (ntotal (index self)))
          (enumerate 0 docs)")
    have "0 \<le> int (ntotal (index self))" by simp
    from store_metadata_linked [OF L1 this dims run] obtain r where
      "linked self' (int (ntotal (index self)) + int 0 + int (length docs)) r {}" by blast
    then have L2: "linked self' (int (ntotal (index self)) + int (length docs)) [] {}"
      using linked_finish by simp
    from store_metadata_frame [OF run] have fr': "config self' = config self"
      "index self' = ix" by simp_all
    have nt: "int (ntotal (index self')) = int (ntotal (index self)) + int (length docs)"
      by (simp add: fr' ix ntotal_def batch_vectors_def)
    have L3: "linked self' (int (ntotal (index self'))) [] {}"
      using L2 by (simp only: nt)
    have "dim (index self') = dimension (config self')"
      using dimeq by (simp add: fr' ix)
    with L3 have I': "inv self'"
      unfolding inv_def by blast
    from True have t: "list_all (\<lambda>doc. doc_content doc \<noteq> None) docs" "docs \<noteq> []"
      by simp_all
    from add_documents_stored [OF t Inr run] I' show ?thesis
      by (simp split: option.splits)
  qed
qed

lemma linked_dom_eq:
  "linked self B [] D0 \<Longrightarrow> dom (map_of (id_to_index self)) = dom (map_of (document_store self))"
proof -
  assume "linked self B [] D0"
  then have "dom (map_of (id_to_index self)) \<subseteq> dom (map_of (document_store self))"
    "dom (map_of (document_store self)) - dom (map_of (id_to_index self)) \<subseteq> set [] \<inter> D0"
    unfolding linked_def by blast+
  then show ?thesis by auto
qed

lemma linked_delete:
  assumes L: "linked self B [] {}" and D: "map_of (document_store self) i = Some dd"
  shows "map_of (id_to_index self) i = Some (faiss_index dd)"
    and "map_of (index_to_id self) (str_int (faiss_index dd)) = Some i"
    and "linked (self\<lparr>document_store := AList.delete i (document_store self),
                      id_to_index := AList.delete i (id_to_index self),
                      index_to_id := AList.delete (str_int (faiss_index dd)) (index_to_id self)\<rparr>)
           B [] {}"
proof -
  let ?DS = "map_of (document_store self)"
  let ?IX = "map_of (id_to_index self)"
  let ?XI = "map_of (index_to_id self)"
  let ?fi = "faiss_index dd"
  from L have f: "\<And>j p. ?IX j = Some p \<Longrightarrow> ?XI (str_int p) = Some j \<and> 0 \<le> p \<and> p < B"
    unfolding linked_def by blast
  from L have g: "\<And>k j. ?XI k = Some j \<Longrightarrow> \<exists>p. ?IX j = Some p \<and> k = str_int p"
    unfolding linked_def by blast
  from L have h: "\<And>j dd. ?DS j = Some dd \<Longrightarrow> j \<in> dom ?IX \<Longrightarrow> ?IX j = Some (faiss_index dd)"
    unfolding linked_def by blast
  from L have dm: "\<And>j dd. ?DS j = Some dd \<Longrightarrow>
      length (embedding_model self (content dd)) = dimension (config self)"
    unfolding linked_def by blast
  from L have dist: "distinct (map fst (document_store self))"
    "distinct (map fst (id_to_index self))" "distinct (map fst (index_to_id self))"
    unfolding linked_def by auto
  have de: "dom ?IX = dom ?DS" using L by (rule linked_dom_eq)
  with D have "i \<in> dom ?IX" by blast
  with h [OF D] show ix: "?IX i = Some ?fi" by blast
  from f [OF ix] show xi: "?XI (str_int ?fi) = Some i" by blast
  have f': "\<forall>j p. (?IX(i := None)) j = Some p \<longrightarrow>
      (?XI(str_int ?fi := None)) (str_int p) = Some j \<and> 0 \<le> p \<and> p < B"
    using f xi by (auto split: if_splits)
  have g': "\<forall>k j. (?XI(str_int ?fi := None)) k = Some j \<longrightarrow>
      (\<exists>p. (?IX(i := None)) j = Some p \<and> k = str_int p)"
    using g ix by (auto split: if_splits) fastforce+
  have h': "\<forall>j dd. (?DS(i := None)) j = Some dd \<longrightarrow>
      j \<in> dom (?IX(i := None)) \<longrightarrow> (?IX(i := None)) j = Some (faiss_index dd)"
    using h by (auto split: if_splits)
  have dm': "\<forall>j dd. (?DS(i := None)) j = Some dd \<longrightarrow>
      length (embedding_model self (content dd)) = dimension (config self)"
    using dm by (auto split: if_splits)
  have s': "dom (?IX(i := None)) \<subseteq> dom (?DS(i := None))"
    "dom (?DS(i := None)) - dom (?IX(i := None)) \<subseteq> {}"
    using de by auto
  show "linked (self\<lparr>document_store := AList.delete i (document_store self),
                      id_to_index := AList.delete i (id_to_index self),
                      index_to_id := AList.delete (str_int (faiss_index dd)) (index_to_id self)\<rparr>)
           B [] {}"
    unfolding linked_def
    using dist f' g' h' dm' s'
    by (simp add: delete_conv' distinct_delete)
qed

lemma linked_empty_store:
  assumes "linked self B [] {}" "document_store self = []"
  shows "linked self 0 [] {}"
proof -
  from linked_dom_eq [OF assms(1)] assms(2)
  have e: "map_of (id_to_index self) = Map.empty" by simp
  from assms(1) have g: "\<And>k j. map_of (index_to_id self) k = Some j \<Longrightarrow>
      \<exists>p. map_of (id_to_index self) j = Some p \<and> k = str_int p"
    unfolding linked_def by blast
  have "\<forall>i p. map_of (id_to_index self) i = Some p \<longrightarrow>
        map_of (index_to_id self) (str_int p) = Some i \<and> 0 \<le> p \<and> p < 0"
    by (simp add: e)
  with assms(1) show ?thesis
    unfolding linked_def by (elim conjE, intro conjI) (assumption | simp | blast)+
qed

lemma store_metadata_wellformed:
  "\<forall>doc \<in> set docs. doc_id doc \<noteq> None \<and> doc_content doc \<noteq> None \<Longrightarrow>
   fst (store_metadata self start (enumerate n docs)) = None"
  by (induction docs arbitrary: self n) (auto simp: Let_def)

lemma update_append_notin:
  "k \<notin> fst ` set xs \<Longrightarrow> AList.update k v (xs @ ys) = xs @ AList.update k v ys"
  by (induction xs) auto

lemma batch_ids_stored_documents [simp]: "batch_ids (stored_documents store) = map fst store"
  by (induction store) (auto simp: stored_documents_def)

lemma stored_documents_wellformed:
  "\<forall>doc \<in> set (stored_documents store). doc_id doc \<noteq> None \<and> doc_content doc \<noteq> None"
  by (auto simp: stored_documents_def)

lemma stored_documents_simps [simp]:
  "stored_documents [] = []"
  "stored_documents ((i, dd) # store) =
     \<lparr>doc_id = Some i, doc_content = Some (content dd), doc_metadata = Some (metadata dd)\<rparr>
     # stored_documents store"
  by (simp_all add: stored_documents_def)

lemma renumber_simps [simp]:
  "renumber n [] = []"
  "renumber n ((i, dd) # store) = (i, dd\<lparr>faiss_index := int n\<rparr>) # renumber (Suc n) store"
  by (simp_all add: renumber_def)

lemma store_metadata_in_place:
  assumes "document_store self = A @ Bs" "distinct (map fst (A @ Bs))"
  shows "document_store (snd (store_metadata self 0 (enumerate n (stored_documents Bs)))) =
         A @ renumber n Bs"
  using assms
proof (induction Bs arbitrary: A n self)
  case Nil
  then show ?case by simp
next
  case (Cons b Bs)
  obtain i dd where b: "b = (i, dd)" by (cases b)
  let ?v = "\<lparr>content = content dd, metadata = metadata dd, faiss_index = 0 + int n\<rparr>"
  let ?self1 = "self\<lparr>document_store := AList.update i ?v (document_store self),
            id_to_index := AList.update i (0 + int n) (id_to_index self),
            index_to_id := AList.update (str_int (0 + int n)) i (index_to_id self)\<rparr>"
  from Cons.prems b have ni: "i \<notin> fst ` set A" by auto
  have v: "?v = dd\<lparr>faiss_index := int n\<rparr>" by simp
  have st1: "document_store ?self1 = (A @ [(i, dd\<lparr>faiss_index := int n\<rparr>)]) @ Bs"
    using Cons.prems(1) b ni by (simp add: update_append_notin)
  have d1: "distinct (map fst ((A @ [(i, dd\<lparr>faiss_index := int n\<rparr>)]) @ Bs))"
    using Cons.prems(2) b by simp
  have "store_metadata self 0 (enumerate n (stored_documents (b # Bs))) =
        store_metadata ?self1 0 (enumerate (Suc n) (stored_documents Bs))"
    by (simp add: b Let_def)
  with Cons.IH [OF st1 d1, of "Suc n"] show ?case
    by (simp add: b)
qed

lemma batch_vectors_cong:
  "config s' = config s \<Longrightarrow> embedding_model s' = embedding_model s \<Longrightarrow>
   batch_vectors s' docs = batch_vectors s docs"
  by (simp add: batch_vectors_def prep_def)

lemma create_index_fields [simp]:
  "config (create_index self) = config self"
  "embedding_model (create_index self) = embedding_model self"
  "document_store (create_index self) = document_store self"
  "id_to_index (create_index self) = id_to_index self"
  "index_to_id (create_index self) = index_to_id self"
  "files (create_index self) = files self"
  "dim (index (create_index self)) = dimension (config self)"
  "vectors (index (create_index self)) = []"
  "ntotal (index (create_index self)) = 0"
  by (simp_all add: create_index_def Let_def ntotal_def)

lemma save_index_fields [simp]:
  "config (save_index self) = config self"
  "embedding_model (save_index self) = embedding_model self"
  "document_store (save_index self) = document_store self"
  "id_to_index (save_index self) = id_to_index self"
  "index_to_id (save_index self) = index_to_id self"
  "index (save_index self) = index self"
  by (simp_all add: save_index_def)

lemma rebuild_index_empty:
  assumes L: "linked self B [] {}" and E: "document_store self = []"
  shows "inv (rebuild_index self)"
    and "document_store (rebuild_index self) = []"
    and "index (rebuild_index self) = index (create_index self)"
    and "\<exists>s. rebuild_index self = save_index s"
proof -
  have r: "rebuild_index self = save_index (create_index self)"
    using E by (simp add: rebuild_index_def)
  then show "\<exists>s. rebuild_index self = save_index s" by blast
  from linked_empty_store [OF L E]
  have "linked (create_index self) 0 [] {}"
    by (simp add: linked_cong [of "create_index self" self])
  then have "inv (create_index self)" by (simp add: inv_def)
  then show "inv (rebuild_index self)"
    unfolding r by simp
  show "document_store (rebuild_index self) = []" unfolding r using E by simp
  show "index (rebuild_index self) = index (create_index self)" unfolding r by simp
qed

lemma rebuild_index_nonempty_gen:
  assumes dist: "distinct (map fst (document_store self))"
    and dmA: "\<forall>j dd. map_of (document_store self) j = Some dd \<longrightarrow>
      length (embedding_model self (content dd)) = dimension (config self)"
    and NE: "document_store self \<noteq> []"
  shows "inv (rebuild_index self)"
    and "document_store (rebuild_index self) = renumber 0 (document_store self)"
    and "index (rebuild_index self) =
           (index (create_index self))
             \<lparr>vectors := batch_vectors self (stored_documents (document_store self))\<rparr>"
    and "\<exists>s. rebuild_index self = save_index s"
proof -
  let ?docs = "stored_documents (document_store self)"
  let ?self2 = "(create_index self)\<lparr>id_to_index := [], index_to_id := []\<rparr>"
  have r: "rebuild_index self = snd (add_documents ?self2 ?docs)"
    using NE by (simp add: rebuild_index_def stored_documents_def Let_def)
  have c: "list_all (\<lambda>doc. doc_content doc \<noteq> None) ?docs" "?docs \<noteq> []"
    using NE by (simp_all add: stored_documents_def list_all_iff split_beta)
  from dmA have dm: "\<And>j dd. map_of (document_store self) j = Some dd \<Longrightarrow>
      length (embedding_model self (content dd)) = dimension (config self)"
    by blast
  have dims0: "\<forall>doc \<in> set ?docs. \<forall>c. doc_content doc = Some c \<longrightarrow>
      length (embedding_model self c) = dimension (config self)"
    using dm dist by (auto simp: stored_documents_def)
  have bv: "batch_vectors ?self2 ?docs = batch_vectors self ?docs"
    by (rule batch_vectors_cong) simp_all
  let ?ix = "(index (create_index self))\<lparr>vectors := batch_vectors self ?docs\<rparr>"
  have "\<forall>x \<in> set (batch_vectors self ?docs). length x = dimension (config self)"
    using dims0 by (auto simp: batch_vectors_def stored_documents_def)
  then have ia: "index_add (index ?self2) (batch_vectors ?self2 ?docs) = Inr ?ix"
    unfolding bv by (simp add: index_add_def list_all_iff)
  obtain e self' where run: "store_metadata (?self2\<lparr>index := ?ix\<rparr>) (int (ntotal (index ?self2)))
      (enumerate 0 ?docs) = (e, self')"
    by (cases "store_metadata (?self2\<lparr>index := ?ix\<rparr>) (int (ntotal (index ?self2)))
          (enumerate 0 ?docs)")
  have "fst (store_metadata S st (enumerate 0 ?docs)) = None" for S st
    by (rule store_metadata_wellformed [OF stored_documents_wellformed])
  from this [of "?self2\<lparr>index := ?ix\<rparr>" "int (ntotal (index ?self2))"] run
  have e: "e = None" by simp
  from add_documents_stored [OF c ia run] e
  have res: "rebuild_index self = save_index self'" unfolding r by simp
  then show "\<exists>s. rebuild_index self = save_index s" by blast
  have L1: "linked (?self2\<lparr>index := ?ix\<rparr>) (0 + int 0) (batch_ids ?docs) UNIV"
    unfolding linked_def using dist dm
    by (auto simp: dom_map_of_conv_image_fst)
  have dims: "\<forall>doc \<in> set ?docs. \<forall>c. doc_content doc = Some c \<longrightarrow>
      length (embedding_model (?self2\<lparr>index := ?ix\<rparr>) c) =
      dimension (config (?self2\<lparr>index := ?ix\<rparr>))"
    using dims0 by simp
  have run0: "store_metadata (?self2\<lparr>index := ?ix\<rparr>) 0 (enumerate 0 ?docs) = (e, self')"
    using run by simp
  from store_metadata_linked [OF L1 _ dims run0] e obtain rr where
    "linked self' (0 + int 0 + int (length ?docs)) rr UNIV" "rr = []" by blast
  then have L2: "linked self' (int (length ?docs)) [] {}"
    using linked_nil by simp
  from store_metadata_frame [OF run0] have fr: "config self' = config self"
    "index self' = ?ix" by simp_all
  have nt: "ntotal (index self') = length ?docs"
    by (simp add: fr ntotal_def batch_vectors_def)
  have L3: "linked self' (int (ntotal (index self'))) [] {}"
    using L2 by (simp only: nt)
  have "dim (index self') = dimension (config self')"
    by (simp add: fr)
  with L3 have "inv self'"
    unfolding inv_def by blast
  then show "inv (rebuild_index self)" unfolding res by simp
  have "document_store self' = [] @ renumber 0 (document_store self)"
    using store_metadata_in_place [of "?self2\<lparr>index := ?ix\<rparr>" "[]" "document_store self" 0]
      dist run0 by simp
  then show "document_store (rebuild_index self) = renumber 0 (document_store self)"
    unfolding res by simp
  show "index (rebuild_index self) = ?ix" unfolding res by (simp add: fr)
qed

lemma rebuild_index_nonempty:
  assumes L: "linked self B [] {}" and NE: "document_store self \<noteq> []"
  shows "inv (rebuild_index self)"
    and "document_store (rebuild_index self) = renumber 0 (document_store self)"
    and "index (rebuild_index self) =
           (index (create_index self))
             \<lparr>vectors := batch_vectors self (stored_documents (document_store self))\<rparr>"
    and "\<exists>s. rebuild_index self = save_index s"
proof -
  from L have dm: "\<forall>j dd. map_of (document_store self) j = Some dd \<longrightarrow>
      length (embedding_model self (content dd)) = dimension (config self)"
    unfolding linked_def by blast
  from L have dist: "distinct (map fst (document_store self))"
    unfolding linked_def by blast
  note g = rebuild_index_nonempty_gen [OF dist dm NE]
  show "inv (rebuild_index self)" by (rule g(1))
  show "document_store (rebuild_index self) = renumber 0 (document_store self)" by (rule g(2))
  show "index (rebuild_index self) =
           (index (create_index self))
             \<lparr>vectors := batch_vectors self (stored_documents (document_store self))\<rparr>"
    by (rule g(3))
  show "\<exists>s. rebuild_index self = save_index s" by (rule g(4))
qed

lemma rebuild_index_linked:
  assumes L: "linked self B [] {}"
  shows "inv (rebuild_index self)"
    and "document_store (rebuild_index self) = renumber 0 (document_store self)"
    and "index (rebuild_index self) =
           (index (create_index self))
             \<lparr>vectors := batch_vectors self (stored_documents (document_store self))\<rparr>"
    and "\<exists>s. rebuild_index self = save_index s"
proof -
  have e: "(index (create_index self))\<lparr>vectors := []\<rparr> = index (create_index self)"
    by (simp add: create_index_def Let_def)
  show "\<exists>s. rebuild_index self = save_index s"
    using rebuild_index_empty(4) [OF L] rebuild_index_nonempty(4) [OF L] by blast
  show "inv (rebuild_index self)"
    using rebuild_index_empty(1) [OF L] rebuild_index_nonempty(1) [OF L] by blast
  show "document_store (rebuild_index self) = renumber 0 (document_store self)"
    using rebuild_index_empty(2) [OF L] rebuild_index_nonempty(2) [OF L]
    by (cases "document_store self = []") simp_all
  show "index (rebuild_index self) =
           (index (create_index self))
             \<lparr>vectors := batch_vectors self (stored_documents (document_store self))\<rparr>"
    using rebuild_index_empty(3) [OF L] rebuild_index_nonempty(3) [OF L] e
    by (cases "document_store self = []") (simp_all add: batch_vectors_def)
qed

lemma delete_document_unknown:
  "map_of (document_store self) i = None \<Longrightarrow> delete_document self i = (False, self)"
  by (simp add: delete_document_def delete_document_body_def)

lemma delete_document_existing:
  assumes I: "inv self" and D: "map_of (document_store self) i = Some dd"
  shows "fst (delete_document self i) = True"
    and "inv (snd (delete_document self i))"
    and "document_store (snd (delete_document self i)) =
           renumber 0 (AList.delete i (document_store self))"
    and "index (snd (delete_document self i)) =
           (index (create_index self))
             \<lparr>vectors := batch_vectors self
                 (stored_documents (AList.delete i (document_store self)))\<rparr>"
    and "\<exists>s. snd (delete_document self i) = save_index s"
proof -
  let ?self3 = "self\<lparr>document_store := AList.delete i (document_store self),
                      id_to_index := AList.delete i (id_to_index self),
                      index_to_id := AList.delete (str_int (faiss_index dd)) (index_to_id self)\<rparr>"
  from I have L: "linked self (int (ntotal (index self))) [] {}" by (simp add: inv_def)
  note d = linked_delete [OF L D]
  have del: "delete_document self i = (True, rebuild_index ?self3)"
    using D d(1,2)
    by (simp add: delete_document_def delete_document_body_def remove_from_stores_def
        Let_def has_key_def
        delete_conv')
  note r = rebuild_index_linked [OF d(3)]
  show "fst (delete_document self i) = True" by (simp add: del)
  show "\<exists>s. snd (delete_document self i) = save_index s" using r(4) by (simp add: del)
  show "inv (snd (delete_document self i))" using r(1) by (simp add: del)
  show "document_store (snd (delete_document self i)) =
           renumber 0 (AList.delete i (document_store self))"
    using r(2) by (simp add: del)
  have ci: "index (create_index ?self3) = index (create_index self)"
    by (simp add: create_index_def Let_def)
  have bv: "batch_vectors ?self3 docs = batch_vectors self docs" for docs
    by (rule batch_vectors_cong) simp_all
  show "index (snd (delete_document self i)) =
           (index (create_index self))
             \<lparr>vectors := batch_vectors self
                 (stored_documents (AList.delete i (document_store self)))\<rparr>"
    using r(3) by (simp add: del ci bv)
qed

lemma delete_document_inv:
  assumes "inv self"
  shows "inv (snd (delete_document self i))"
proof (cases "map_of (document_store self) i")
  case None
  with assms show ?thesis by (simp add: delete_document_unknown)
next
  case (Some dd)
  from delete_document_existing(2) [OF assms Some] show ?thesis .
qed

lemma run_calls_inv:
  "inv self \<Longrightarrow> fresh_calls self calls \<Longrightarrow> inv (run_calls self calls)"
proof (induction calls arbitrary: self)
  case Nil
  then show ?case by simp
next
  case (Cons c calls)
  from Cons.prems have "inv (apply_call self c)"
    by (cases c) (simp_all add: add_documents_inv delete_document_inv del: fresh_call.simps)
  with Cons show ?case by simp
qed

lemma inv_bijection_invariant:
  assumes "inv self"
  shows "bijection_invariant self"
proof -
  let ?DS = "map_of (document_store self)"
  let ?IX = "map_of (id_to_index self)"
  let ?XI = "map_of (index_to_id self)"
  from assms have L: "linked self (int (ntotal (index self))) [] {}" by (simp add: inv_def)
  from L have f: "\<And>j p. ?IX j = Some p \<Longrightarrow> ?XI (str_int p) = Some j"
    unfolding linked_def by blast
  from L have g: "\<And>k j. ?XI k = Some j \<Longrightarrow> \<exists>p. ?IX j = Some p \<and> k = str_int p"
    unfolding linked_def by blast
  from L have dist: "distinct (map fst (document_store self))"
    "distinct (map fst (id_to_index self))" "distinct (map fst (index_to_id self))"
    unfolding linked_def by auto
  have len: "length al = card (dom (map_of al))" if "distinct (map fst al)"
    for al :: "('a \<times> 'b) list"
    using that distinct_card [of "map fst al"] by (simp add: dom_map_of_conv_image_fst)
  have m1: "list_all (\<lambda>(did, p). ?XI (str_int p) = Some did) (id_to_index self)"
    using f dist(2) by (auto simp: list_all_iff)
  have m2: "list_all (\<lambda>(k, did). case ?IX did of None \<Rightarrow> False | Some p \<Rightarrow> str_int p = k)
       (index_to_id self)"
  proof -
    have "case ?IX j of None \<Rightarrow> False | Some p \<Rightarrow> str_int p = k"
      if "(k, j) \<in> set (index_to_id self)" for k j
    proof -
      from that dist(3) have "?XI k = Some j" by simp
      from g [OF this] show ?thesis by auto
    qed
    then show ?thesis by (auto simp: list_all_iff)
  qed
  have l1: "length (id_to_index self) = length (document_store self)"
    using len [OF dist(1)] len [OF dist(2)] linked_dom_eq [OF L] by simp
  let ?h = "\<lambda>j. str_int (the (?IX j))"
  have img: "dom ?XI = ?h ` dom ?IX"
  proof (intro set_eqI iffI)
    fix k assume "k \<in> dom ?XI"
    then obtain j where "?XI k = Some j" by blast
    from g [OF this] obtain p where "?IX j = Some p" "k = str_int p" by blast
    then show "k \<in> ?h ` dom ?IX" by force
  next
    fix k assume "k \<in> ?h ` dom ?IX"
    then obtain j p where "?IX j = Some p" "k = str_int p" by force
    with f show "k \<in> dom ?XI" by blast
  qed
  have inj: "inj_on ?h (dom ?IX)"
  proof (rule inj_onI)
    fix a b assume a: "a \<in> dom ?IX" "b \<in> dom ?IX" "?h a = ?h b"
    then obtain p q where pq: "?IX a = Some p" "?IX b = Some q" by blast
    with a(3) have "p = q" by simp
    with f [OF pq(1)] f [OF pq(2)] show "a = b" by simp
  qed
  have "card (dom ?XI) = card (dom ?IX)"
    unfolding img using inj by (rule card_image)
  then have l2: "length (index_to_id self) = length (document_store self)"
    using len [OF dist(3)] len [OF dist(2)] l1 by simp
  from m1 m2 l1 l2 show ?thesis
    by (simp add: bijection_invariant_def mappings_inverse_def)
qed

subsection \<open>The two mappings are inverse to each other\<close>

text \<open>
  C1 as stated fails when an id that is already present is added again: the second
  \<open>add_documents\<close> overwrites \<open>id_to_index['a']\<close> with the new position and adds
  \<open>index_to_id['1']\<close>, and \<open>index_to_id['0']\<close> stays. \<open>index_to_id\<close> then has two
  entries for one document, and \<open>id_to_index\<close> sends \<open>a\<close> to 1 only.
\<close>

theorem bijection_fails_on_present_id:
  "\<not> bijection_invariant (run_calls (new_faiss cfg_ip enc_ip) calls_add_twice) \<and>
   id_to_index (run_calls (new_faiss cfg_ip enc_ip) calls_add_twice) = [(''a'', 1)] \<and>
   index_to_id (run_calls (new_faiss cfg_ip enc_ip) calls_add_twice) =
     [(''0'', ''a''), (''1'', ''a'')] \<and>
   map fst (document_store (run_calls (new_faiss cfg_ip enc_ip) calls_add_twice)) = [''a'']"
  by (simp add: calls_add_twice_def bijection_invariant_def mappings_inverse_def
      model_defs input_defs)

text \<open>
  C1, amended. On an object built on an empty directory, after any sequence of
  \<open>add_documents\<close> and \<open>delete_document\<close> calls in which every batch added brings ids
  that are distinct and not yet in \<open>document_store\<close>, \<open>id_to_index\<close> and
  \<open>index_to_id\<close> are inverse to each other (up to \<open>str\<close> of the position), and
  each has as many entries as \<open>document_store\<close>.
\<close>

theorem bijection_after_fresh_calls:
  assumes "fresh_calls (new_faiss cfg enc) calls"
  shows "bijection_invariant (run_calls (new_faiss cfg enc) calls)"
  using assms inv_new_faiss run_calls_inv inv_bijection_invariant by blast

theorem bijection_after_fresh_calls_witness:
  "fresh_calls (new_faiss cfg_ip enc_ip) calls_add_delete \<and>
   bijection_invariant (run_calls (new_faiss cfg_ip enc_ip) calls_add_delete) \<and>
   id_to_index (run_calls (new_faiss cfg_ip enc_ip) calls_add_delete) = [(''b'', 0)] \<and>
   index_to_id (run_calls (new_faiss cfg_ip enc_ip) calls_add_delete) = [(''0'', ''b'')] \<and>
   map fst (document_store (run_calls (new_faiss cfg_ip enc_ip) calls_add_delete)) = [''b'']"
proof -
  have f: "fresh_calls (new_faiss cfg_ip enc_ip) calls_add_delete"
    by (simp add: calls_add_delete_def batch_ids_def List.map_filter_simps
        model_defs input_defs)
  have e: "id_to_index (run_calls (new_faiss cfg_ip enc_ip) calls_add_delete) = [(''b'', 0)] \<and>
   index_to_id (run_calls (new_faiss cfg_ip enc_ip) calls_add_delete) = [(''0'', ''b'')] \<and>
   map fst (document_store (run_calls (new_faiss cfg_ip enc_ip) calls_add_delete)) = [''b'']"
    by (simp add: calls_add_delete_def model_defs input_defs)
  from bijection_after_fresh_calls [OF f] f e show ?thesis by blast
qed

subsection \<open>What every call keeps, whatever ids are added\<close>




lemma wlinked_cong:
  assumes "document_store s' = document_store s" "id_to_index s' = id_to_index s"
    "index_to_id s' = index_to_id s" "embedding_model s' = embedding_model s"
    "config s' = config s"
  shows "wlinked s' B = wlinked s B"
  unfolding wlinked_def assms ..




lemma winv_save_index [simp]: "winv (save_index self) = winv self"
  by (simp add: winv_def save_index_def wlinked_cong [of "self\<lparr>files := f\<rparr>" self for f])





subsection \<open>Deleting a stored document\<close>

lemma map_fst_renumber [simp]: "map fst (renumber n store) = map fst store"
  by (induction store arbitrary: n) auto

lemma length_renumber [simp]: "length (renumber n store) = length store"
  by (simp add: renumber_def)










text \<open>
  C5, refuted as it is written: after two calls of \<open>add_documents\<close> with the same
  document \<open>a\<close>, the store holds \<open>a\<close> at position 1;
  \<open>delete_document\<close> of \<open>a\<close> returns \<open>True\<close> and empties the
  document store and the mapping from ids to positions, and the mapping from positions to
  ids still holds the entry \<open>'0' : 'a'\<close> that the first call wrote: only the
  entry at the document's own position is deleted, and with no document left
  \<open>_rebuild_index\<close> returns before it clears the mappings.
\<close>

theorem delete_document_leaves_stale_entry:
  "map_of (document_store (run_calls (new_faiss cfg_ip enc_ip) calls_add_twice)) ''a'' =
     Some \<lparr>content = ''x'', metadata = [], faiss_index = 1\<rparr> \<and>
   fst (delete_document (run_calls (new_faiss cfg_ip enc_ip) calls_add_twice) ''a'') \<and>
   document_store (snd (delete_document (run_calls (new_faiss cfg_ip enc_ip) calls_add_twice) ''a''))
     = [] \<and>
   id_to_index (snd (delete_document (run_calls (new_faiss cfg_ip enc_ip) calls_add_twice) ''a''))
     = [] \<and>
   index_to_id (snd (delete_document (run_calls (new_faiss cfg_ip enc_ip) calls_add_twice) ''a''))
     = [(''0'', ''a'')]"
  by (simp add: calls_add_twice_def model_defs input_defs)




subsection \<open>The disk during and after a call\<close>

lemma save_index_io_faults [simp]:
  "io_faults (files (save_index self)) = tl (io_faults (files self))"
  by (simp add: save_index_def)



lemma written_in_order_Nil [simp]: "written_in_order before self' []"
  by (simp add: written_in_order_def)
















subsection \<open>Persistence and crashes\<close>





end
